theory Spec2Isabelle
  imports Complex_Main "HOL-Library.Word" "HOL-Library.AList"
begin

section \<open>Errors and exceptions\<close>

text \<open>
  The TypeScript sources throw \<^verbatim>\<open>Error\<close> objects and the protocol SDK's
  \<^verbatim>\<open>McpError\<close>, which carries an \<^verbatim>\<open>ErrorCode\<close>. A computation that may throw
  returns \<open>js_error + 'a\<close>, with \<open>Inl\<close> for the thrown value.
\<close>

datatype error_code = InvalidParams | InternalError | MethodNotFound

datatype js_error = Error string | McpError error_code string

type_synonym 'a result = "js_error + 'a"

section \<open>URL normalisation (utils.ts)\<close>

text \<open>
  \<^verbatim>\<open>new URL(url, baseUrl)\<close> is the platform's URL parser. It is a parameter
  \<open>URL_new\<close> of the model: given the input string and the base's href it returns the
  parsed URL's \<^verbatim>\<open>href\<close>, or the exception it throws.
\<close>

type_synonym url_parser = "string \<Rightarrow> string \<Rightarrow> string result"

text \<open>\<^verbatim>\<open>s.replace(/\/$/, "")\<close>: drops one slash, and only at the very end.\<close>

definition strip_trailing_slash :: "string \<Rightarrow> string" where
  "strip_trailing_slash s = (if s \<noteq> [] \<and> last s = CHR ''/'' then butlast s else s)"

text \<open>\<^verbatim>\<open>s.split("#")[0]\<close>: everything before the first hash sign.\<close>

definition before_hash :: "string \<Rightarrow> string" where
  "before_hash s = takeWhile (\<lambda>c. c \<noteq> CHR ''#'') s"

text \<open>The body of the \<^verbatim>\<open>try\<close> block of \<^verbatim>\<open>normalizeUrl\<close>.\<close>

definition normalizeUrl_try :: "url_parser \<Rightarrow> string \<Rightarrow> string \<Rightarrow> string result" where
  "normalizeUrl_try URL_new url baseUrl =
     (case URL_new url baseUrl of
        Inl e \<Rightarrow> Inl e
      | Inr href \<Rightarrow> Inr (before_hash (strip_trailing_slash href)))"

text \<open>\<^verbatim>\<open>normalizeUrl\<close>: the \<^verbatim>\<open>catch\<close> clause turns every exception into \<^verbatim>\<open>""\<close>.\<close>

definition normalizeUrl :: "url_parser \<Rightarrow> string \<Rightarrow> string \<Rightarrow> string" where
  "normalizeUrl URL_new url baseUrl =
     (case normalizeUrl_try URL_new url baseUrl of
        Inl e \<Rightarrow> ''''
      | Inr s \<Rightarrow> s)"

section \<open>Properties of URL normalisation\<close>

lemma normalizeUrl_parsed:
  "URL_new url baseUrl = Inr href \<Longrightarrow>
   normalizeUrl URL_new url baseUrl = before_hash (strip_trailing_slash href)"
  by (simp add: normalizeUrl_def normalizeUrl_try_def)

text \<open>
  C10. \<^verbatim>\<open>normalizeUrl\<close> returns a string on every input: whenever the parser throws
  on the input (for whatever reason), the result is the empty string, and otherwise it is
  the trimmed href. No exception leaves the function.
\<close>

theorem normalizeUrl_total:
  "(\<exists>e. URL_new url baseUrl = Inl e \<and> normalizeUrl URL_new url baseUrl = '''') \<or>
   (\<exists>href. URL_new url baseUrl = Inr href \<and>
      normalizeUrl URL_new url baseUrl = before_hash (strip_trailing_slash href))"
  by (cases "URL_new url baseUrl") (simp_all add: normalizeUrl_def normalizeUrl_try_def)

text \<open>
  C7. Normalising twice is not the same as normalising once. The trailing slash is
  removed before the fragment is cut off, so an href that ends in a fragment keeps the
  slash in front of it; the second pass then removes that slash. The hypotheses state
  what the parser returns on the two strings involved (both are already in serialised
  form, so the platform parser returns them unchanged).
\<close>

theorem normalizeUrl_twice_differs:
  assumes "URL_new ''https://example.com/docs/#intro'' b = Inr ''https://example.com/docs/#intro''"
      and "URL_new ''https://example.com/docs/'' b = Inr ''https://example.com/docs/''"
  shows "normalizeUrl URL_new ''https://example.com/docs/#intro'' b = ''https://example.com/docs/''
       \<and> normalizeUrl URL_new (normalizeUrl URL_new ''https://example.com/docs/#intro'' b) b
           = ''https://example.com/docs''
       \<and> normalizeUrl URL_new (normalizeUrl URL_new ''https://example.com/docs/#intro'' b) b
           \<noteq> normalizeUrl URL_new ''https://example.com/docs/#intro'' b"
proof -
  have one: "normalizeUrl URL_new ''https://example.com/docs/#intro'' b = ''https://example.com/docs/''"
    by (simp add: normalizeUrl_def normalizeUrl_try_def assms(1) before_hash_def
        strip_trailing_slash_def)
  have two: "normalizeUrl URL_new ''https://example.com/docs/'' b = ''https://example.com/docs''"
    by (simp add: normalizeUrl_def normalizeUrl_try_def assms(2) before_hash_def
        strip_trailing_slash_def)
  show ?thesis
    by (simp add: one two)
qed

theorem normalizeUrl_twice_differs_witness:
  "normalizeUrl (\<lambda>u b. Inr u) (normalizeUrl (\<lambda>u b. Inr u) ''https://example.com/docs/#intro'' ''https://example.com'') ''https://example.com''
     \<noteq> normalizeUrl (\<lambda>u b. Inr u) ''https://example.com/docs/#intro'' ''https://example.com''"
  by (rule normalizeUrl_twice_differs [THEN conjunct2, THEN conjunct2]) simp_all

section \<open>Cosine similarity (index-db.ts)\<close>






section \<open>Properties of cosine similarity\<close>











section \<open>Sliding-window chunking (data.ts)\<close>

text \<open>
  \<^verbatim>\<open>chunkMarkdownSlidingWindow\<close> splits its text at whitespace, and what counts as
  whitespace is decided per UTF-16 code unit, so the text is a list of 16-bit words here.
\<close>

type_synonym js_char = "16 word"
type_synonym js_string = "js_char list"

text \<open>The regular expression class \<^verbatim>\<open>\s\<close>: ECMAScript white space and line terminators.\<close>

definition is_space :: "js_char \<Rightarrow> bool" where
  "is_space c \<longleftrightarrow>
     c = 0x09 \<or> c = 0x0A \<or> c = 0x0B \<or> c = 0x0C \<or> c = 0x0D \<or> c = 0x20 \<or> c = 0xA0 \<or>
     c = 0x1680 \<or> (0x2000 \<le> c \<and> c \<le> 0x200A) \<or> c = 0x2028 \<or> c = 0x2029 \<or>
     c = 0x202F \<or> c = 0x205F \<or> c = 0x3000 \<or> c = 0xFEFF"

text \<open>
  \<^verbatim>\<open>markdown.split(/\s+/)\<close>: the text is cut at every maximal run of white space.
  A text that starts (ends) with white space gets an empty first (last) word, and the
  empty text gives one empty word.
\<close>

function split_ws :: "js_string \<Rightarrow> js_string list" where
  "split_ws [] = [[]]"
| "split_ws (c # cs) =
     (if is_space c then [] # split_ws (dropWhile is_space cs)
      else (case split_ws cs of
              [] \<Rightarrow> [[c]]
            | w # ws \<Rightarrow> (c # w) # ws))"
  by pat_completeness auto
termination
  by (relation "measure length") (auto simp: length_dropWhile_le le_imp_less_Suc)

text \<open>\<^verbatim>\<open>words.join(" ")\<close>.\<close>

fun join_sp :: "js_string list \<Rightarrow> js_string" where
  "join_sp [] = []"
| "join_sp [w] = w"
| "join_sp (w # ws) = w @ [0x20] @ join_sp ws"

text \<open>\<^verbatim>\<open>xs.slice(start, end)\<close> for \<open>0 \<le> start\<close> and \<open>0 \<le> end\<close>.\<close>

definition array_slice :: "'a list \<Rightarrow> nat \<Rightarrow> nat \<Rightarrow> 'a list" where
  "array_slice xs start end = take (end - start) (drop start xs)"

definition chunkSize :: nat where "chunkSize = 500"
definition overlap :: nat where "overlap = 65"

text \<open>
  The \<^verbatim>\<open>for\<close> loop, from a given value of \<^verbatim>\<open>start\<close>; the result is the list of
  chunks pushed from there on.
\<close>

function chunk_loop :: "js_string list \<Rightarrow> nat \<Rightarrow> js_string list" where
  "chunk_loop words start =
     (if start < length words
      then (let end = min (start + chunkSize) (length words);
                chunk = join_sp (array_slice words start end)
            in if end = length words then [chunk]
               else chunk # chunk_loop words (start + (chunkSize - overlap)))
      else [])"
  by pat_completeness auto
termination
  by (relation "measure (\<lambda>(words, start). length words - start)")
     (auto simp: chunkSize_def overlap_def)

declare chunk_loop.simps [simp del]

definition chunkMarkdownSlidingWindow :: "js_string \<Rightarrow> js_string list" where
  "chunkMarkdownSlidingWindow markdown = chunk_loop (split_ws markdown) 0"

text \<open>
  Reading a chunk back: \<^verbatim>\<open>chunk.split(" ")\<close> gives its words, and the text's words
  are those of the first chunk followed by those of every later chunk without its first
  \<open>overlap\<close> words.
\<close>

fun split_sp :: "js_string \<Rightarrow> js_string list" where
  "split_sp [] = [[]]"
| "split_sp (c # cs) =
     (if c = 0x20 then [] # split_sp cs
      else (case split_sp cs of
              [] \<Rightarrow> [[c]]
            | w # ws \<Rightarrow> (c # w) # ws))"

definition unchunk :: "js_string list \<Rightarrow> js_string list" where
  "unchunk chunks =
     (case chunks of
        [] \<Rightarrow> []
      | c # cs \<Rightarrow> split_sp c @ concat (map (\<lambda>c. drop overlap (split_sp c)) cs))"


section \<open>Properties of chunking\<close>

lemma split_ws_not_Nil: "split_ws s \<noteq> []"
  by (induction s rule: split_ws.induct) (auto split: list.splits)

lemma split_ws_no_space: "w \<in> set (split_ws s) \<Longrightarrow> c \<in> set w \<Longrightarrow> \<not> is_space c"
proof (induction s arbitrary: w rule: split_ws.induct)
  case 1
  then show ?case by simp
next
  case (2 d ds)
  show ?case
  proof (cases "is_space d")
    case True
    with 2 show ?thesis by auto
  next
    case False
    obtain v vs where vs: "split_ws ds = v # vs"
      using split_ws_not_Nil [of ds] by (cases "split_ws ds") auto
    from "2.prems"(1) False vs have "w = d # v \<or> w \<in> set vs" by simp
    then show ?thesis
    proof
      assume "w = d # v"
      with "2.prems"(2) have "c = d \<or> c \<in> set v" by auto
      then show ?thesis
        using False "2.IH"(2) [OF False, of v] vs by auto
    next
      assume "w \<in> set vs"
      then show ?thesis
        using "2.IH"(2) [OF False, of w] vs "2.prems"(2) by auto
    qed
  qed
qed

lemma is_space_blank: "is_space 0x20"
  by code_simp

lemma split_ws_no_blank: "w \<in> set (split_ws s) \<Longrightarrow> 0x20 \<notin> set w"
  using split_ws_no_space is_space_blank by blast

lemma split_sp_not_Nil: "split_sp s \<noteq> []"
  by (induction s) (auto split: list.splits)

lemma split_sp_word: "0x20 \<notin> set w \<Longrightarrow> split_sp (w @ s) = (case split_sp s of v # vs \<Rightarrow> (w @ v) # vs | [] \<Rightarrow> [w])"
  by (induction w) (auto split: list.splits simp: split_sp_not_Nil)

lemma split_sp_join_sp:
  "ws \<noteq> [] \<Longrightarrow> \<forall>w\<in>set ws. 0x20 \<notin> set w \<Longrightarrow> split_sp (join_sp ws) = ws"
proof (induction ws rule: join_sp.induct)
  case 1
  then show ?case by simp
next
  case (2 w)
  then show ?case using split_sp_word [of w "[]"] by simp
next
  case (3 w v vs)
  then have "split_sp (join_sp (v # vs)) = v # vs" by simp
  with 3 show ?case using split_sp_word [of w "0x20 # join_sp (v # vs)"] by simp
qed


lemma chunk_loop_done: "\<not> start < length words \<Longrightarrow> chunk_loop words start = []"
  by (simp add: chunk_loop.simps [of words start])

lemma chunk_loop_final:
  "start < length words \<Longrightarrow> length words \<le> start + chunkSize \<Longrightarrow>
   chunk_loop words start = [join_sp (drop start words)]"
  by (simp add: chunk_loop.simps [of words start] Let_def array_slice_def min_def)

lemma chunk_loop_step:
  "start + chunkSize < length words \<Longrightarrow>
   chunk_loop words start =
     join_sp (take chunkSize (drop start words)) # chunk_loop words (start + (chunkSize - overlap))"
  by (simp add: chunk_loop.simps [of words start] Let_def array_slice_def min_def)

lemma chunk_loop_cases:
  obtains (stop) "\<not> start < length words"
  | (final) "start < length words" "length words \<le> start + chunkSize"
      "min (start + chunkSize) (length words) = length words"
  | (step) "start < length words" "start + chunkSize < length words"
      "min (start + chunkSize) (length words) \<noteq> length words"
  by (cases "start < length words"; cases "length words \<le> start + chunkSize") auto

lemma chunk_loop_nth:
  "i < length (chunk_loop words s) \<Longrightarrow>
   chunk_loop words s ! i = join_sp (take chunkSize (drop (s + i * (chunkSize - overlap)) words))"
proof (induction words s arbitrary: i rule: chunk_loop.induct)
  case (1 words start)
  show ?case
  proof (cases rule: chunk_loop_cases [of start words])
    case stop
    with "1.prems" show ?thesis by (simp add: chunk_loop_done)
  next
    case final
    with "1.prems" show ?thesis by (simp add: chunk_loop_final)
  next
    case step
    show ?thesis
    proof (cases i)
      case 0
      with step show ?thesis by (simp add: chunk_loop_step)
    next
      case (Suc j)
      with step "1.prems" have "j < length (chunk_loop words (start + (chunkSize - overlap)))"
        by (simp add: chunk_loop_step)
      from "1.IH" [OF step(1) refl refl step(3) this] Suc step show ?thesis
        by (simp add: chunk_loop_step add.assoc)
    qed
  qed
qed

lemma chunk_loop_last:
  "s < length words \<Longrightarrow>
   chunk_loop words s \<noteq> [] \<and>
   last (chunk_loop words s) =
     join_sp (drop (s + (length (chunk_loop words s) - 1) * (chunkSize - overlap)) words)"
proof (induction words s rule: chunk_loop.induct)
  case (1 words start)
  show ?case
  proof (cases rule: chunk_loop_cases [of start words])
    case stop
    with "1.prems" show ?thesis by simp
  next
    case final
    then show ?thesis by (simp add: chunk_loop_final)
  next
    case step
    then have next_lt: "start + (chunkSize - overlap) < length words"
      by (simp add: chunkSize_def overlap_def)
    from "1.IH" [OF step(1) refl refl step(3) next_lt]
    obtain m where m: "length (chunk_loop words (start + (chunkSize - overlap))) = Suc m"
      by (cases "chunk_loop words (start + (chunkSize - overlap))") auto
    from "1.IH" [OF step(1) refl refl step(3) next_lt] step show ?thesis
      by (simp add: chunk_loop_step m add.assoc)
  qed
qed

lemma chunk_loop_tail:
  "\<forall>w\<in>set words. 0x20 \<notin> set w \<Longrightarrow> s + overlap < length words \<Longrightarrow>
   concat (map (\<lambda>c. drop overlap (split_sp c)) (chunk_loop words s)) = drop (s + overlap) words"
proof (induction words s rule: chunk_loop.induct)
  case (1 words start)
  note blank = "1.prems"(1)
  show ?case
  proof (cases rule: chunk_loop_cases [of start words])
    case stop
    with "1.prems" show ?thesis by simp
  next
    case final
    have "split_sp (join_sp (drop start words)) = drop start words"
      using final(1) blank by (intro split_sp_join_sp) (auto dest!: in_set_dropD)
    then show ?thesis
      using final by (simp add: chunk_loop_final add.commute)
  next
    case step
    then have more: "start + (chunkSize - overlap) + overlap < length words"
      by (simp add: chunkSize_def overlap_def)
    have win: "split_sp (join_sp (take chunkSize (drop start words))) = take chunkSize (drop start words)"
      using step(1) blank
      by (intro split_sp_join_sp) (auto simp: chunkSize_def dest!: in_set_takeD in_set_dropD)
    have head: "drop overlap (take chunkSize (drop start words))
        = take (chunkSize - overlap) (drop (start + overlap) words)"
      by (simp add: drop_take add.commute)
    have rest: "drop (start + (chunkSize - overlap) + overlap) words
        = drop (chunkSize - overlap) (drop (start + overlap) words)"
      by (simp add: add.commute add.left_commute)
    have "concat (map (\<lambda>c. drop overlap (split_sp c)) (chunk_loop words start))
        = drop overlap (take chunkSize (drop start words))
          @ concat (map (\<lambda>c. drop overlap (split_sp c))
              (chunk_loop words (start + (chunkSize - overlap))))"
      using step by (simp add: chunk_loop_step win)
    also have "\<dots> = take (chunkSize - overlap) (drop (start + overlap) words)
          @ drop (chunkSize - overlap) (drop (start + overlap) words)"
      using "1.IH" [OF step(1) refl refl step(3) blank more]
      by (simp only: head rest)
    also have "\<dots> = drop (start + overlap) words"
      by (rule append_take_drop_id)
    finally show ?thesis .
  qed
qed

lemma chunk_loop_unchunk:
  assumes "words \<noteq> []" "\<forall>w\<in>set words. 0x20 \<notin> set w"
  shows "unchunk (chunk_loop words 0) = words"
proof (cases rule: chunk_loop_cases [of 0 words])
  case stop
  with assms show ?thesis by simp
next
  case final
  have "split_sp (join_sp words) = words"
    using assms by (rule split_sp_join_sp)
  with final show ?thesis
    by (simp add: unchunk_def chunk_loop_final)
next
  case step
  then have more: "0 + (chunkSize - overlap) + overlap < length words"
    by (simp add: chunkSize_def overlap_def)
  have win: "split_sp (join_sp (take chunkSize words)) = take chunkSize words"
    using assms
    by (intro split_sp_join_sp) (auto simp: chunkSize_def dest!: in_set_takeD)
  have "concat (map (\<lambda>c. drop overlap (split_sp c)) (chunk_loop words (0 + (chunkSize - overlap))))
      = drop (0 + (chunkSize - overlap) + overlap) words"
    using assms(2) more by (rule chunk_loop_tail)
  moreover have "0 + (chunkSize - overlap) + overlap = chunkSize"
    by (simp add: chunkSize_def overlap_def)
  ultimately have "concat (map (\<lambda>c. drop overlap (split_sp c))
      (chunk_loop words (0 + (chunkSize - overlap)))) = drop chunkSize words"
    by (simp only:)
  then show ?thesis
    using step by (simp add: unchunk_def chunk_loop_step win)
qed

text \<open>
  C2. For every text, with \<open>chunkSize = 500\<close> and \<open>overlap = 65\<close>: there is at least
  one window; window \<open>i\<close> is made of the (at most 500) words that start at word offset
  \<open>i * (500 - 65)\<close>; the last window runs to the last word of the text; and the windows,
  each but the first without its first 65 words, give back the word sequence.
\<close>

theorem chunkMarkdownSlidingWindow_windows:
  "chunkMarkdownSlidingWindow markdown \<noteq> []
   \<and> (\<forall>i<length (chunkMarkdownSlidingWindow markdown).
        chunkMarkdownSlidingWindow markdown ! i
          = join_sp (take chunkSize (drop (i * (chunkSize - overlap)) (split_ws markdown))))
   \<and> last (chunkMarkdownSlidingWindow markdown)
        = join_sp (drop ((length (chunkMarkdownSlidingWindow markdown) - 1) * (chunkSize - overlap))
            (split_ws markdown))
   \<and> unchunk (chunkMarkdownSlidingWindow markdown) = split_ws markdown"
proof -
  have ne: "0 < length (split_ws markdown)"
    using split_ws_not_Nil [of markdown] by simp
  have blank: "\<forall>w\<in>set (split_ws markdown). 0x20 \<notin> set w"
    using split_ws_no_blank by blast
  show ?thesis
    unfolding chunkMarkdownSlidingWindow_def
    using chunk_loop_last [OF ne] chunk_loop_nth [of _ "split_ws markdown" 0]
      chunk_loop_unchunk [OF split_ws_not_Nil blank]
    by simp
qed

theorem chunkMarkdownSlidingWindow_windows_witness:
  "0 < length (chunkMarkdownSlidingWindow [0x61, 0x20, 0x20, 0x62])
   \<and> chunkMarkdownSlidingWindow [0x61, 0x20, 0x20, 0x62] ! 0
       = join_sp (take chunkSize (drop (0 * (chunkSize - overlap)) (split_ws [0x61, 0x20, 0x20, 0x62])))
   \<and> chunkMarkdownSlidingWindow [0x61, 0x20, 0x20, 0x62] = [[0x61, 0x20, 0x62]]
   \<and> unchunk (chunkMarkdownSlidingWindow [0x61, 0x20, 0x20, 0x62]) = [[0x61], [0x62]]"
proof -
  have w: "split_ws [0x61, 0x20, 0x20, 0x62] = [[0x61], [0x62]]"
    by code_simp
  have c: "chunkMarkdownSlidingWindow [0x61, 0x20, 0x20, 0x62] = [[0x61, 0x20, 0x62]]"
    by (simp add: chunkMarkdownSlidingWindow_def w chunk_loop_final chunkSize_def
        del: split_ws.simps)
  have pos: "0 < length (chunkMarkdownSlidingWindow [0x61, 0x20, 0x20, 0x62])"
    by (simp only: c) simp
  have nth: "\<forall>i<length (chunkMarkdownSlidingWindow [0x61, 0x20, 0x20, 0x62]).
        chunkMarkdownSlidingWindow [0x61, 0x20, 0x20, 0x62] ! i
          = join_sp (take chunkSize (drop (i * (chunkSize - overlap))
              (split_ws [0x61, 0x20, 0x20, 0x62])))"
    and un: "unchunk (chunkMarkdownSlidingWindow [0x61, 0x20, 0x20, 0x62])
          = split_ws [0x61, 0x20, 0x20, 0x62]"
    using chunkMarkdownSlidingWindow_windows [of "[0x61, 0x20, 0x20, 0x62]"] by blast+
  from nth pos have "chunkMarkdownSlidingWindow [0x61, 0x20, 0x20, 0x62] ! 0
       = join_sp (take chunkSize (drop (0 * (chunkSize - overlap)) (split_ws [0x61, 0x20, 0x20, 0x62])))"
    by blast
  moreover from un have "unchunk (chunkMarkdownSlidingWindow [0x61, 0x20, 0x20, 0x62]) = [[0x61], [0x62]]"
    by (simp only: w)
  ultimately show ?thesis
    using pos c by blast
qed

section \<open>Searching existing data (tools.ts)\<close>

text \<open>
  The SDK's \<^verbatim>\<open>McpError\<close> constructor stores the message
  \<^verbatim>\<open>`MCP error ${code}: ${message}`\<close>; \<open>code_number\<close> gives the numeric codes of
  the three error kinds used.
\<close>

fun code_number :: "error_code \<Rightarrow> string" where
  "code_number InvalidParams = ''-32602''"
| "code_number InternalError = ''-32603''"
| "code_number MethodNotFound = ''-32601''"

definition new_McpError :: "error_code \<Rightarrow> string \<Rightarrow> js_error" where
  "new_McpError code msg = McpError code (''MCP error '' @ code_number code @ '': '' @ msg)"

text \<open>\<^verbatim>\<open>error instanceof Error ? error.message : String(error)\<close>; every thrown value
  of the model is an \<^verbatim>\<open>Error\<close>.\<close>

fun message_of :: "js_error \<Rightarrow> string" where
  "message_of (Error m) = m"
| "message_of (McpError c m) = m"

text \<open>\<^verbatim>\<open>try { body } catch (e) { handler(e) }\<close> and sequencing of computations that may throw.\<close>

definition try_catch :: "'a result \<Rightarrow> (js_error \<Rightarrow> 'a result) \<Rightarrow> 'a result" where
  "try_catch body handler = (case body of Inl e \<Rightarrow> handler e | Inr v \<Rightarrow> Inr v)"

definition and_then :: "'a result \<Rightarrow> ('a \<Rightarrow> 'b result) \<Rightarrow> 'b result" where
  "and_then m f = (case m of Inl e \<Rightarrow> Inl e | Inr v \<Rightarrow> f v)"

text \<open>
  What \<^verbatim>\<open>IndexDatabase.search\<close> returns, and the same with the two fields that the
  handler adds. Numbers are reals.
\<close>

record SearchResult =
  doc_id :: string
  url :: string
  title :: string
  content :: string
  distance :: real
  chunkIndex :: nat

record SearchResultWithRelevance = SearchResult +
  relevance :: real
  matchedQueries :: "string list"

text \<open>
  \<^verbatim>\<open>parseFloat(x.toFixed(4))\<close>: the decimal with four places nearest to \<open>x\<close>, the one
  of larger magnitude when two are equally near; numbers from \<open>10^21\<close> on are printed in
  full, so they come back unchanged.
\<close>

definition toFixed4 :: "real \<Rightarrow> real" where
  "toFixed4 x =
     (if 10 ^ 21 \<le> \<bar>x\<bar> then x
      else if x < 0 then - (of_int \<lfloor>(- x) * 10000 + 1 / 2\<rfloor> / 10000)
      else of_int \<lfloor>x * 10000 + 1 / 2\<rfloor> / 10000)"

definition with_relevance :: "string \<Rightarrow> SearchResult \<Rightarrow> SearchResultWithRelevance" where
  "with_relevance q r =
     \<lparr>doc_id = doc_id r, url = url r, title = title r, content = content r,
      distance = distance r, chunkIndex = chunkIndex r,
      relevance = toFixed4 (1 - distance r), matchedQueries = [q]\<rparr>"

definition startsWith :: "string \<Rightarrow> string \<Rightarrow> bool" where
  "startsWith s p \<longleftrightarrow> take (length p) s = p"

text \<open>\<^verbatim>\<open>arr.filter((q, i, arr) => arr.indexOf(q) === i)\<close>: first occurrences only.\<close>

definition keep_first :: "'a list \<Rightarrow> 'a list" where
  "keep_first xs = rev (remdups (rev xs))"

text \<open>
  The \<^verbatim>\<open>Map<string, SearchResultWithRelevance>\<close> of the \<^verbatim>\<open>reduce\<close> is a list of
  key-value pairs in insertion order; \<^verbatim>\<open>map.set\<close> on a key already there keeps its
  place, which is what \<open>AList.update\<close> does. \<open>dedupe_step\<close> is the callback of the
  \<^verbatim>\<open>reduce\<close>.
\<close>

type_synonym result_map = "(string \<times> SearchResultWithRelevance) list"

definition dedupe_step :: "result_map \<Rightarrow> SearchResultWithRelevance \<Rightarrow> result_map" where
  "dedupe_step m result =
     (case map_of m (url result) of
        None \<Rightarrow> AList.update (url result) result m
      | Some existing \<Rightarrow>
          let existing1 = (if relevance existing < relevance result
                           then existing\<lparr>relevance := relevance result\<rparr> else existing);
              existing2 = existing1\<lparr>matchedQueries :=
                            keep_first (matchedQueries existing1 @ matchedQueries result)\<rparr>
          in AList.update (url result) existing2 m)"

definition dedupe_by_url :: "SearchResultWithRelevance list \<Rightarrow> SearchResultWithRelevance list" where
  "dedupe_by_url results = map snd (foldl dedupe_step [] results)"

text \<open>
  \<^verbatim>\<open>.sort((a, b) => b.relevance - a.relevance)\<close> is a stable sort by descending
  relevance; \<^verbatim>\<open>.slice(0, limit)\<close> counts a negative limit from the end.
\<close>

definition sort_by_relevance :: "SearchResultWithRelevance list \<Rightarrow> SearchResultWithRelevance list" where
  "sort_by_relevance rs = sort_key (\<lambda>r. - relevance r) rs"

definition slice0 :: "'a list \<Rightarrow> int \<Rightarrow> 'a list" where
  "slice0 xs e = (if e < 0 then take (length xs - nat (- e)) xs else take (nat e) xs)"

text \<open>
  The three lists of the handler: \<^verbatim>\<open>allResults\<close> after the loop over the queries,
  \<^verbatim>\<open>filteredResults\<close> after the URL filter (applied when a non-empty URL is given), and
  \<^verbatim>\<open>uniqueResults\<close>, deduplicated, sorted and truncated.
\<close>

definition allResults :: "(string \<Rightarrow> int \<Rightarrow> SearchResult list) \<Rightarrow> string list \<Rightarrow> int \<Rightarrow> SearchResultWithRelevance list" where
  "allResults search qs limit = concat (map (\<lambda>q. map (with_relevance q) (search q limit)) qs)"

definition truthy :: "string option \<Rightarrow> bool" where
  "truthy u \<longleftrightarrow> (case u of None \<Rightarrow> False | Some s \<Rightarrow> s \<noteq> [])"

definition filteredResults :: "string option \<Rightarrow> SearchResultWithRelevance list \<Rightarrow> SearchResultWithRelevance list" where
  "filteredResults u rs =
     (case u of
        None \<Rightarrow> rs
      | Some p \<Rightarrow> if p \<noteq> [] then filter (\<lambda>r. startsWith (url r) p) rs else rs)"

definition uniqueResults :: "SearchResultWithRelevance list \<Rightarrow> int \<Rightarrow> SearchResultWithRelevance list" where
  "uniqueResults filtered limit = slice0 (sort_by_relevance (dedupe_by_url filtered)) limit"


text \<open>\<^verbatim>\<open>text.lastIndexOf(pat, position)\<close>, \<open>-1\<close> when there is no occurrence.\<close>

fun lastIndexOf_from :: "string \<Rightarrow> string \<Rightarrow> nat \<Rightarrow> int" where
  "lastIndexOf_from text pat 0 = (if take (length pat) text = pat then 0 else - 1)"
| "lastIndexOf_from text pat (Suc k) =
     (if take (length pat) (drop (Suc k) text) = pat then int (Suc k)
      else lastIndexOf_from text pat k)"

definition lastIndexOf :: "string \<Rightarrow> string \<Rightarrow> nat \<Rightarrow> int" where
  "lastIndexOf text pat position = lastIndexOf_from text pat (min position (length text))"

text \<open>
  \<^verbatim>\<open>findNaturalBreakpoint\<close>. \<open>sentence_step\<close> is the body of the loop over the three
  sentence endings. \<^verbatim>\<open>Math.floor(maxPosition * 0.2)\<close>, \<^verbatim>\<open>* 0.15\<close> and
  \<^verbatim>\<open>* 0.1\<close> are written with integer division.
\<close>

definition sentence_step :: "string \<Rightarrow> nat \<Rightarrow> nat \<Rightarrow> int \<Rightarrow> string \<Rightarrow> int" where
  "sentence_step text maxPosition sentenceSearchRange sentenceBreakIndex endChar =
     (let index = lastIndexOf text endChar maxPosition
      in if sentenceBreakIndex < index \<and> int maxPosition - int sentenceSearchRange \<le> index
         then index else sentenceBreakIndex)"

definition findNaturalBreakpoint :: "string \<Rightarrow> nat \<Rightarrow> int" where
  "findNaturalBreakpoint text nearPosition =
     (let maxPosition = min nearPosition (length text);
          paragraphSearchRange = (maxPosition * 2) div 10;
          paragraphBreakIndex = lastIndexOf text [CHR 0x0A, CHR 0x0A] maxPosition
      in if int maxPosition - int paragraphSearchRange \<le> paragraphBreakIndex
         then paragraphBreakIndex + 2
         else
           let sentenceSearchRange = (maxPosition * 15) div 100;
               sentenceBreakIndex =
                 foldl (sentence_step text maxPosition sentenceSearchRange) (- 1)
                   [''. '', ''! '', ''? '']
           in if 0 < sentenceBreakIndex then sentenceBreakIndex + 1
              else
                let wordSearchRange = maxPosition div 10;
                    wordBreakIndex = lastIndexOf text '' '' maxPosition
                in if int maxPosition - int wordSearchRange \<le> wordBreakIndex
                   then wordBreakIndex
                   else int maxPosition)"

text \<open>
  \<^verbatim>\<open>formatSearchResult\<close>. The relevance it reports is computed from the result's
  \<^verbatim>\<open>distance\<close>; the four-decimal string is represented by the number it denotes.
\<close>

record FormattedResult =
  out_url :: string
  out_title :: string
  out_content :: string
  out_relevance :: real
  out_matchedQueries :: "string list"

definition formatSearchResult :: "SearchResultWithRelevance \<Rightarrow> nat \<Rightarrow> FormattedResult" where
  "formatSearchResult result maxContentLength =
     (let limitedContent =
            (if maxContentLength < length (content result)
             then take (nat (findNaturalBreakpoint (content result) maxContentLength)) (content result)
             else content result)
      in \<lparr>out_url = url result, out_title = title result, out_content = limitedContent,
          out_relevance = toFixed4 (1 - distance result),
          out_matchedQueries = matchedQueries result\<rparr>)"

text \<open>
  The file system and the platform functions that \<^verbatim>\<open>getWebsiteDirectory\<close> and
  \<^verbatim>\<open>listCrawledWebsites\<close> (utils.ts) depend on are a record: which paths exist, the
  MD5 digest in hexadecimal, the host name of a URL (or the exception of the parser), the
  websites directory, and the outcome of listing the crawled websites.
\<close>

definition is_alnum :: "char \<Rightarrow> bool" where
  "is_alnum c \<longleftrightarrow>
     (let n = (of_char c :: nat)
      in (48 \<le> n \<and> n \<le> 57) \<or> (65 \<le> n \<and> n \<le> 90) \<or> (97 \<le> n \<and> n \<le> 122))"

record storage =
  existsSync :: "string \<Rightarrow> bool"
  md5hex :: "string \<Rightarrow> string"
  hostname :: "string \<Rightarrow> string result"
  WEBSITES_DIR :: string
  listCrawledWebsites :: "string list result"

definition urlToDirectoryName :: "storage \<Rightarrow> string \<Rightarrow> string" where
  "urlToDirectoryName st u =
     (let urlHash = take 8 (md5hex st u);
          domain = (case hostname st u of
                      Inl e \<Rightarrow> ''unknown_domain''
                    | Inr h \<Rightarrow> map (\<lambda>c. if is_alnum c then c else CHR ''_'') h)
      in domain @ ''_'' @ urlHash)"

definition getWebsiteDirectory :: "storage \<Rightarrow> string \<Rightarrow> string option" where
  "getWebsiteDirectory st u =
     (let dirPath = WEBSITES_DIR st @ ''/'' @ urlToDirectoryName st u
      in if existsSync st dirPath then Some dirPath else None)"

text \<open>
  The index database as the handler sees it: \<^verbatim>\<open>IndexDatabase.getInstance()\<close> may throw,
  \<^verbatim>\<open>db.search(q, limit)\<close> catches its own errors and always returns a list.
\<close>

record index_db =
  getInstance :: "unit result"
  db_search :: "string \<Rightarrow> int \<Rightarrow> SearchResult list"

text \<open>The handler's arguments; \<open>None\<close> is a missing field.\<close>

record search_args =
  arg_queries :: "string list option"
  arg_url :: "string option"
  arg_limit :: "int option"

definition not_crawled_message :: "string \<Rightarrow> string" where
  "not_crawled_message u = ''Website '' @ u @ '' has not been crawled yet. Use search_website tool first.''"

text \<open>
  The block \<^verbatim>\<open>if (url) { ... }\<close> inside the handler's \<^verbatim>\<open>try\<close>: for a site without
  a directory it lists the crawled websites for the log and throws.
\<close>

definition check_crawled :: "storage \<Rightarrow> string option \<Rightarrow> unit result" where
  "check_crawled st u =
     (case u of
        None \<Rightarrow> Inr ()
      | Some p \<Rightarrow>
          if p = [] then Inr ()
          else (case getWebsiteDirectory st p of
                  Some websiteDir \<Rightarrow> Inr ()
                | None \<Rightarrow>
                    and_then (listCrawledWebsites st)
                      (\<lambda>availableWebsites. Inl (new_McpError InvalidParams (not_crawled_message p)))))"

text \<open>
  \<^verbatim>\<open>handleSearchExistingData\<close>. The check of the queries comes before the \<^verbatim>\<open>try\<close>;
  everything else is inside it, and the \<^verbatim>\<open>catch\<close> wraps whatever was thrown.
\<close>

definition handleSearchExistingData ::
  "storage \<Rightarrow> index_db \<Rightarrow> search_args \<Rightarrow> FormattedResult list result" where
  "handleSearchExistingData st db args =
     (let limit = (case arg_limit args of None \<Rightarrow> 5 | Some l \<Rightarrow> l)
      in case arg_queries args of
           None \<Rightarrow> Inl (new_McpError InvalidParams ''At least one search query is required'')
         | Some queries \<Rightarrow>
             if queries = []
             then Inl (new_McpError InvalidParams ''At least one search query is required'')
             else
               try_catch
                 (and_then (check_crawled st (arg_url args)) (\<lambda>_.
                  and_then (getInstance db) (\<lambda>_.
                    Inr (map (\<lambda>result. formatSearchResult result 1500)
                          (uniqueResults
                             (filteredResults (arg_url args)
                                (allResults (db_search db) queries limit))
                             limit)))))
                 (\<lambda>error. Inl (new_McpError InternalError
                                 (''Search operation failed: '' @ message_of error))))"

section \<open>Multi-query search over Qdrant (data.ts)\<close>

text \<open>
  A Qdrant search result with the payload fields that \<^verbatim>\<open>saveChunksToQdrant\<close> writes;
  \<open>None\<close> is a field that is absent. The embedder and the Qdrant client are a record of
  functions that may throw. The type \<open>'s\<close> is the representation of a text: the search
  compares texts only for equality, the chunker of \<^verbatim>\<open>saveChunksToQdrant\<close> needs
  their UTF-16 code units.
\<close>

record 's qdrant_payload =
  payload_url :: string
  chunk_id :: "string option"
  payload_content :: "'s option"
  timestamp :: string

record qdrant_result =
  point_id :: string
  score :: real
  payload :: "string qdrant_payload"

record 's qdrant_env =
  loadEmbedder :: "unit result"
  embedChunk :: "'s \<Rightarrow> real list result"
  searchQdrantByEmbedding :: "real list \<Rightarrow> int \<Rightarrow> qdrant_result list result"





section \<open>Properties of the deduplication by URL\<close>

text \<open>
  \<open>same_url rs u\<close> are the results for the URL \<open>u\<close>; \<open>merged rs u v\<close> says that
  \<open>v\<close> stands for all of them: it has the largest relevance among them and the union
  of their matched queries.
\<close>

definition same_url :: "SearchResultWithRelevance list \<Rightarrow> string \<Rightarrow> SearchResultWithRelevance set" where
  "same_url rs u = {x \<in> set rs. url x = u}"

definition merged :: "SearchResultWithRelevance list \<Rightarrow> string \<Rightarrow> SearchResultWithRelevance \<Rightarrow> bool" where
  "merged rs u v \<longleftrightarrow>
     url v = u \<and> same_url rs u \<noteq> {} \<and>
     relevance v = Max (relevance ` same_url rs u) \<and>
     set (matchedQueries v) = (\<Union>x\<in>same_url rs u. set (matchedQueries x))"

definition dedupe_inv :: "result_map \<Rightarrow> SearchResultWithRelevance list \<Rightarrow> bool" where
  "dedupe_inv m rs \<longleftrightarrow>
     distinct (map fst m) \<and>
     (\<forall>u. case map_of m u of None \<Rightarrow> same_url rs u = {} | Some v \<Rightarrow> merged rs u v)"

lemma same_url_snoc:
  "same_url (rs @ [x]) u = (if url x = u then insert x (same_url rs u) else same_url rs u)"
  by (auto simp: same_url_def)

lemma finite_same_url [simp]: "finite (same_url rs u)"
  by (simp add: same_url_def)

lemma set_keep_first [simp]: "set (keep_first xs) = set xs"
  by (simp add: keep_first_def)

lemma merged_other: "url x \<noteq> u \<Longrightarrow> merged (rs @ [x]) u v = merged rs u v"
  by (simp add: merged_def same_url_snoc)

lemma merged_first: "same_url rs (url x) = {} \<Longrightarrow> merged (rs @ [x]) (url x) x"
  by (simp add: merged_def same_url_snoc)

lemma merged_again:
  assumes "merged rs (url x) e"
  shows "merged (rs @ [x]) (url x)
     ((if relevance e < relevance x then e\<lparr>relevance := relevance x\<rparr> else e)
        \<lparr>matchedQueries :=
           keep_first (matchedQueries (if relevance e < relevance x then e\<lparr>relevance := relevance x\<rparr> else e)
                         @ matchedQueries x)\<rparr>)"
proof -
  let ?H = "same_url rs (url x)"
  let ?e1 = "if relevance e < relevance x then e\<lparr>relevance := relevance x\<rparr> else e"
  from assms have ne: "?H \<noteq> {}" and rel: "relevance e = Max (relevance ` ?H)"
    and mq: "set (matchedQueries e) = (\<Union>x\<in>?H. set (matchedQueries x))" and u: "url e = url x"
    by (simp_all add: merged_def)
  have snoc: "same_url (rs @ [x]) (url x) = insert x ?H"
    by (simp add: same_url_snoc)
  have "Max (relevance ` insert x ?H) = max (relevance x) (Max (relevance ` ?H))"
    using ne by simp
  then have mx: "Max (relevance ` insert x ?H) = max (relevance x) (relevance e)"
    by (simp only: rel)
  have r1: "relevance ?e1 = max (relevance x) (relevance e)"
    by (simp add: max_def)
  have u1: "url ?e1 = url x" and q1: "matchedQueries ?e1 = matchedQueries e"
    using u by simp_all
  have "url (?e1\<lparr>matchedQueries := keep_first (matchedQueries ?e1 @ matchedQueries x)\<rparr>) = url x"
    using u1 by simp
  moreover have "relevance (?e1\<lparr>matchedQueries := keep_first (matchedQueries ?e1 @ matchedQueries x)\<rparr>)
      = Max (relevance ` insert x ?H)"
    using r1 mx by simp
  moreover have "set (matchedQueries (?e1\<lparr>matchedQueries := keep_first (matchedQueries ?e1 @ matchedQueries x)\<rparr>))
      = (\<Union>y\<in>insert x ?H. set (matchedQueries y))"
    using q1 mq by auto
  ultimately show ?thesis
    unfolding merged_def snoc by blast
qed

lemma dedupe_step_inv:
  assumes "dedupe_inv m rs"
  shows "dedupe_inv (dedupe_step m x) (rs @ [x])"
proof (cases "map_of m (url x)")
  case None
  with assms have empty: "same_url rs (url x) = {}"
    by (auto simp: dedupe_inv_def split: option.splits dest: spec [of _ "url x"])
  have step: "dedupe_step m x = AList.update (url x) x m"
    using None by (simp add: dedupe_step_def)
  show ?thesis
    unfolding dedupe_inv_def step
  proof (intro conjI allI)
    show "distinct (map fst (AList.update (url x) x m))"
      using assms by (simp add: dedupe_inv_def distinct_update)
    fix u
    show "case map_of (AList.update (url x) x m) u of
            None \<Rightarrow> same_url (rs @ [x]) u = {} | Some v \<Rightarrow> merged (rs @ [x]) u v"
    proof (cases "u = url x")
      case True
      then show ?thesis using merged_first [OF empty] by (simp add: update_conv')
    next
      case False
      then show ?thesis
        using assms
        by (auto simp: update_conv' dedupe_inv_def same_url_snoc merged_other
            split: option.splits dest: spec [of _ u])
    qed
  qed
next
  case (Some e)
  with assms have me: "merged rs (url x) e"
    by (auto simp: dedupe_inv_def split: option.splits dest: spec [of _ "url x"])
  let ?e = "(if relevance e < relevance x then e\<lparr>relevance := relevance x\<rparr> else e)
        \<lparr>matchedQueries :=
           keep_first (matchedQueries (if relevance e < relevance x then e\<lparr>relevance := relevance x\<rparr> else e)
                         @ matchedQueries x)\<rparr>"
  have step: "dedupe_step m x = AList.update (url x) ?e m"
    using Some by (simp add: dedupe_step_def Let_def)
  show ?thesis
    unfolding dedupe_inv_def step
  proof (intro conjI allI)
    show "distinct (map fst (AList.update (url x) ?e m))"
      using assms by (simp add: dedupe_inv_def distinct_update)
    fix u
    show "case map_of (AList.update (url x) ?e m) u of
            None \<Rightarrow> same_url (rs @ [x]) u = {} | Some v \<Rightarrow> merged (rs @ [x]) u v"
    proof (cases "u = url x")
      case True
      then show ?thesis using merged_again [OF me] by (simp add: update_conv')
    next
      case False
      then show ?thesis
        using assms
        by (auto simp: update_conv' dedupe_inv_def same_url_snoc merged_other
            split: option.splits dest: spec [of _ u])
    qed
  qed
qed

lemma dedupe_inv_foldl: "dedupe_inv (foldl dedupe_step [] rs) rs"
proof (induction rs rule: rev_induct)
  case Nil
  show ?case by (simp add: dedupe_inv_def same_url_def)
next
  case (snoc x xs)
  then show ?case by (simp add: dedupe_step_inv)
qed

lemma dedupe_by_url_merged:
  assumes "v \<in> set (dedupe_by_url rs)"
  shows "merged rs (url v) v"
proof -
  let ?m = "foldl dedupe_step [] rs"
  have inv: "dedupe_inv ?m rs" by (rule dedupe_inv_foldl)
  from assms obtain u where "(u, v) \<in> set ?m"
    by (auto simp: dedupe_by_url_def)
  with inv have "map_of ?m u = Some v"
    by (simp add: dedupe_inv_def)
  with inv have "merged rs u v"
    by (auto simp: dedupe_inv_def split: option.splits dest: spec [of _ u])
  then show ?thesis by (simp add: merged_def)
qed

lemma dedupe_by_url_distinct: "distinct (map url (dedupe_by_url rs))"
proof -
  let ?m = "foldl dedupe_step [] rs"
  have inv: "dedupe_inv ?m rs" by (rule dedupe_inv_foldl)
  have "\<forall>p\<in>set ?m. url (snd p) = fst p"
  proof
    fix p assume "p \<in> set ?m"
    then have "(fst p, snd p) \<in> set ?m" by simp
    with inv have "map_of ?m (fst p) = Some (snd p)"
      by (simp add: dedupe_inv_def)
    with inv have "merged rs (fst p) (snd p)"
      by (auto simp: dedupe_inv_def split: option.splits dest: spec [of _ "fst p"])
    then show "url (snd p) = fst p" by (simp add: merged_def)
  qed
  then have "map url (dedupe_by_url rs) = map fst ?m"
    by (simp add: dedupe_by_url_def)
  with inv show ?thesis by (simp add: dedupe_inv_def)
qed

lemma dedupe_by_url_covers: "url ` set (dedupe_by_url rs) = url ` set rs"
proof -
  let ?m = "foldl dedupe_step [] rs"
  have inv: "dedupe_inv ?m rs" by (rule dedupe_inv_foldl)
  show ?thesis
  proof (intro set_eqI iffI)
    fix u assume "u \<in> url ` set (dedupe_by_url rs)"
    then obtain v where v: "v \<in> set (dedupe_by_url rs)" "u = url v" by auto
    from dedupe_by_url_merged [OF v(1)] have "same_url rs (url v) \<noteq> {}"
      by (simp add: merged_def)
    then obtain y where y: "y \<in> set rs" "url y = url v" by (auto simp: same_url_def)
    from y(1) have "url y \<in> url ` set rs" by (rule imageI)
    with y(2) v(2) show "u \<in> url ` set rs" by simp
  next
    fix u assume "u \<in> url ` set rs"
    then have "same_url rs u \<noteq> {}" by (auto simp: same_url_def)
    with inv obtain v where v: "map_of ?m u = Some v" "merged rs u v"
      by (auto simp: dedupe_inv_def split: option.splits dest: spec [of _ u])
    from v(1) have "(u, v) \<in> set ?m" by (rule map_of_SomeD)
    then have "v \<in> set (dedupe_by_url rs)" by (force simp: dedupe_by_url_def)
    with v(2) show "u \<in> url ` set (dedupe_by_url rs)" by (auto simp: merged_def)
  qed
qed

lemma set_slice0: "set (slice0 xs e) \<subseteq> set xs"
  by (auto simp: slice0_def dest: in_set_takeD)

lemma distinct_map_slice0: "distinct (map f xs) \<Longrightarrow> distinct (map f (slice0 xs e))"
  by (simp add: slice0_def take_map [symmetric])

lemma uniqueResults_subset: "set (uniqueResults rs limit) \<subseteq> set (dedupe_by_url rs)"
  using set_slice0 [of "sort_by_relevance (dedupe_by_url rs)" limit]
  by (simp add: uniqueResults_def sort_by_relevance_def)

lemma uniqueResults_distinct: "distinct (map url (uniqueResults rs limit))"
proof -
  have "distinct (map url (sort_by_relevance (dedupe_by_url rs)))"
    using dedupe_by_url_distinct [of rs]
    by (simp add: sort_by_relevance_def distinct_map)
  then show ?thesis
    unfolding uniqueResults_def by (rule distinct_map_slice0)
qed

theorem uniqueResults_spec:
  "distinct (map url (uniqueResults rs limit)) \<and>
   (\<forall>v\<in>set (uniqueResults rs limit).
      same_url rs (url v) \<noteq> {} \<and>
      relevance v = Max (relevance ` same_url rs (url v)) \<and>
      set (matchedQueries v) = (\<Union>x\<in>same_url rs (url v). set (matchedQueries x)))"
  using uniqueResults_distinct uniqueResults_subset dedupe_by_url_merged
  by (fastforce simp: merged_def)


section \<open>Searching a site that was never crawled\<close>

lemma check_crawled_fails:
  assumes "u \<noteq> []" "getWebsiteDirectory st u = None"
  shows "\<exists>e. check_crawled st (Some u) = Inl e"
  using assms by (cases "listCrawledWebsites st") (simp_all add: check_crawled_def and_then_def)

text \<open>
  C9. With at least one query and a non-empty URL whose website directory does not
  exist, the call fails, but the error that leaves the handler is an \<open>InternalError\<close>:
  the \<open>InvalidParams\<close> error is thrown inside the \<^verbatim>\<open>try\<close> block and the
  \<^verbatim>\<open>catch\<close> wraps it. No \<open>InvalidParams\<close> error comes out.
\<close>

theorem handleSearchExistingData_uncrawled:
  assumes "arg_queries args = Some queries" and "queries \<noteq> []"
      and "arg_url args = Some u" and "u \<noteq> []"
      and "getWebsiteDirectory st u = None"
  shows "(\<exists>msg. handleSearchExistingData st db args = Inl (McpError InternalError msg))
       \<and> (\<forall>msg. handleSearchExistingData st db args \<noteq> Inl (McpError InvalidParams msg))"
proof -
  from check_crawled_fails [OF assms(4,5)] obtain e where "check_crawled st (Some u) = Inl e" ..
  then have "handleSearchExistingData st db args
      = Inl (new_McpError InternalError (''Search operation failed: '' @ message_of e))"
    using assms(1-3) by (simp add: handleSearchExistingData_def try_catch_def and_then_def)
  then show ?thesis by (simp add: new_McpError_def)
qed

definition empty_storage :: storage where
  "empty_storage =
     \<lparr>existsSync = (\<lambda>p. False), md5hex = (\<lambda>u. ''0123456789abcdef0123456789abcdef''),
      hostname = (\<lambda>u. Inr ''never.example''), WEBSITES_DIR = ''/data/websites'',
      listCrawledWebsites = Inr []\<rparr>"

definition empty_db :: index_db where
  "empty_db = \<lparr>getInstance = Inr (), db_search = (\<lambda>q l. [])\<rparr>"

theorem handleSearchExistingData_uncrawled_witness:
  "(\<exists>msg. handleSearchExistingData empty_storage empty_db
      \<lparr>arg_queries = Some [''install''], arg_url = Some ''https://never.example'', arg_limit = None\<rparr>
        = Inl (McpError InternalError msg))
   \<and> (\<forall>msg. handleSearchExistingData empty_storage empty_db
      \<lparr>arg_queries = Some [''install''], arg_url = Some ''https://never.example'', arg_limit = None\<rparr>
        \<noteq> Inl (McpError InvalidParams msg))"
proof (rule handleSearchExistingData_uncrawled
    [where queries = "[''install'']" and u = "''https://never.example''"])
  show "getWebsiteDirectory empty_storage ''https://never.example'' = None"
    by (simp add: getWebsiteDirectory_def empty_storage_def Let_def)
qed simp_all

text \<open>The error that the caller sees in this example.\<close>

lemma handleSearchExistingData_uncrawled_example:
  "handleSearchExistingData empty_storage empty_db
      \<lparr>arg_queries = Some [''install''], arg_url = Some ''https://never.example'', arg_limit = None\<rparr>
    = Inl (McpError InternalError
        ''MCP error -32603: Search operation failed: MCP error -32602: Website https://never.example has not been crawled yet. Use search_website tool first.'')"
proof -
  have none: "getWebsiteDirectory empty_storage ''https://never.example'' = None"
    by (simp add: getWebsiteDirectory_def empty_storage_def Let_def)
  have "listCrawledWebsites empty_storage = Inr []"
    by (simp add: empty_storage_def)
  then have "check_crawled empty_storage (Some ''https://never.example'')
      = Inl (new_McpError InvalidParams (not_crawled_message ''https://never.example''))"
    by (simp add: check_crawled_def none and_then_def)
  then show ?thesis
    by (simp add: handleSearchExistingData_def try_catch_def and_then_def new_McpError_def
        not_crawled_message_def)
qed

section \<open>Deduplication in the handler\<close>



lemma url_with_relevance [simp]: "url (with_relevance q r) = url r"
  by (simp add: with_relevance_def)

lemma matchedQueries_with_relevance [simp]: "matchedQueries (with_relevance q r) = [q]"
  by (simp add: with_relevance_def)

lemma relevance_with_relevance [simp]: "relevance (with_relevance q r) = toFixed4 (1 - distance r)"
  by (simp add: with_relevance_def)








section \<open>Duplicates in the Qdrant multi-query search\<close>




section \<open>The recursive crawler (crawling.ts)\<close>

text \<open>
  \<^verbatim>\<open>crawlSingleUrl\<close> drives the browser, the chunker and the vector store; for the
  crawl it is a function from a URL to the page's markdown and discovered URLs, or to
  the exception it throws.
\<close>

type_synonym page_source = "string \<Rightarrow> (string \<times> string list) result"

text \<open>A JavaScript \<^verbatim>\<open>Set\<close> is the list of its elements in insertion order.\<close>

definition set_add :: "'a \<Rightarrow> 'a list \<Rightarrow> 'a list" where
  "set_add x xs = (if x \<in> set xs then xs else xs @ [x])"

text \<open>
  The mutable objects that \<^verbatim>\<open>crawlRecursive\<close> shares between its calls: the
  \<^verbatim>\<open>visited\<close> set and the counter \<^verbatim>\<open>pagesCrawled.count\<close>. \<open>attempts\<close> is not in
  the source: it records, in order, the URLs on which \<^verbatim>\<open>crawlSingleUrl\<close> was called.
\<close>

record crawl_state =
  visited :: "string list"
  pagesCrawled :: nat
  attempts :: "string list"

text \<open>
  \<^verbatim>\<open>crawlRecursive\<close>, and its loop over the discovered URLs. Every call is awaited
  before the next one starts, so the calls run one after the other.
\<close>

function crawlRecursive ::
    "page_source \<Rightarrow> nat \<Rightarrow> nat \<Rightarrow> string \<Rightarrow> nat \<Rightarrow> crawl_state \<Rightarrow> crawl_state"
  and crawl_discovered ::
    "page_source \<Rightarrow> nat \<Rightarrow> nat \<Rightarrow> string list \<Rightarrow> nat \<Rightarrow> crawl_state \<Rightarrow> crawl_state"
where
  "crawlRecursive crawlSingleUrl maxDepth maxPages target depth st =
     (if target \<in> set (visited st) then st
      else if maxDepth < depth then st
      else if maxPages \<le> pagesCrawled st then st
      else
        let st1 = st\<lparr>visited := set_add target (visited st), attempts := attempts st @ [target]\<rparr>
        in case crawlSingleUrl target of
             Inl error \<Rightarrow> st1
           | Inr (markdown, discoveredUrls) \<Rightarrow>
               crawl_discovered crawlSingleUrl maxDepth maxPages discoveredUrls depth
                 (st1\<lparr>pagesCrawled := pagesCrawled st1 + 1\<rparr>))"
| "crawl_discovered crawlSingleUrl maxDepth maxPages [] depth st = st"
| "crawl_discovered crawlSingleUrl maxDepth maxPages (discoveredUrl # rest) depth st =
     crawl_discovered crawlSingleUrl maxDepth maxPages rest depth
       (if discoveredUrl \<notin> set (visited st)
        then crawlRecursive crawlSingleUrl maxDepth maxPages discoveredUrl (depth + 1) st
        else st)"
  by pat_completeness auto
termination
  by (relation "measures
        [\<lambda>x. case x of
                Inl (f, maxDepth, maxPages, target, depth, st) \<Rightarrow> 2 * (maxDepth + 1 - depth)
              | Inr (f, maxDepth, maxPages, urls, depth, st) \<Rightarrow> 2 * (maxDepth - depth) + 1,
         \<lambda>x. case x of
                Inl (f, maxDepth, maxPages, target, depth, st) \<Rightarrow> 0
              | Inr (f, maxDepth, maxPages, urls, depth, st) \<Rightarrow> length urls]")
     auto


text \<open>
  \<^verbatim>\<open>crawlWebsite\<close> of crawling.ts, from launching the browser to closing it: the first
  page is crawled without any check, then every discovered URL is handed to
  \<^verbatim>\<open>crawlRecursive\<close> at depth 1, with \<^verbatim>\<open>maxDepth = 2\<close> and \<^verbatim>\<open>maxPages = 500\<close>.
\<close>

record browser_env =
  launchBrowser :: "unit result"
  closeBrowser :: "unit result"

definition crawlWebsite_crawl ::
  "browser_env \<Rightarrow> page_source \<Rightarrow> string \<Rightarrow> (string \<times> crawl_state) result" where
  "crawlWebsite_crawl browser crawlSingleUrl target =
     and_then (launchBrowser browser) (\<lambda>_.
     and_then (crawlSingleUrl target) (\<lambda>(initialMarkdown, discoveredUrls).
       let maxDepth = 2; maxPages = 500;
           st0 = \<lparr>visited = [target], pagesCrawled = 1, attempts = [target]\<rparr>;
           st = foldl (\<lambda>st discoveredUrl.
                        crawlRecursive crawlSingleUrl maxDepth maxPages discoveredUrl 1 st)
                  st0 discoveredUrls
       in and_then (closeBrowser browser) (\<lambda>_. Inr (initialMarkdown, st))))"

section \<open>The batch crawler (an earlier crawling.ts)\<close>

text \<open>
  The other \<^verbatim>\<open>crawlWebsite\<close> works through a queue \<^verbatim>\<open>toVisit\<close> in batches of up to
  50 URLs. \<open>batch_attempts\<close> records the URLs handed to \<^verbatim>\<open>crawlUrlsConcurrently\<close>,
  which returns one result per URL, in order, with failures turned into error results.
\<close>

record batch_state =
  batch_visited :: "string list"
  batch_attempts :: "string list"

fun collect_links :: "string list \<Rightarrow> string list \<Rightarrow> (string \<times> string list) result list \<Rightarrow> string list" where
  "collect_links vs toVisit [] = toVisit"
| "collect_links vs toVisit (Inl error # results) = collect_links vs toVisit results"
| "collect_links vs toVisit (Inr (markdown, discoveredUrls) # results) =
     collect_links vs (toVisit @ filter (\<lambda>link. link \<notin> set vs) discoveredUrls) results"

function crawl_batches :: "page_source \<Rightarrow> string list \<Rightarrow> nat \<Rightarrow> batch_state \<Rightarrow> batch_state" where
  "crawl_batches crawlSingleUrl toVisit currentDepth st =
     (if toVisit \<noteq> [] \<and> currentDepth \<le> 2 \<and> length (batch_visited st) < 500
      then
        let batch = filter (\<lambda>u. u \<notin> set (batch_visited st)) (take 50 toVisit);
            toVisit1 = drop 50 toVisit
        in if batch = [] then st
           else
             let st1 = st\<lparr>batch_visited := foldl (\<lambda>v b. set_add b v) (batch_visited st) batch,
                          batch_attempts := batch_attempts st @ batch\<rparr>;
                 results = map crawlSingleUrl batch;
                 toVisit2 = collect_links (batch_visited st1) toVisit1 results
             in crawl_batches crawlSingleUrl toVisit2 (currentDepth + 1) st1
      else st)"
  by pat_completeness auto
termination
  by (relation "measure (\<lambda>(f, toVisit, currentDepth, st). 3 - currentDepth)") auto

declare crawl_batches.simps [simp del]

definition crawlWebsite_batches :: "browser_env \<Rightarrow> page_source \<Rightarrow> string \<Rightarrow> batch_state result" where
  "crawlWebsite_batches browser crawlSingleUrl target =
     and_then (launchBrowser browser) (\<lambda>_.
       Inr (crawl_batches crawlSingleUrl [target] 0 \<lparr>batch_visited = [], batch_attempts = []\<rparr>))"

section \<open>Properties of the page cap\<close>

definition succeeded :: "page_source \<Rightarrow> string list \<Rightarrow> nat" where
  "succeeded crawlSingleUrl urls = length (filter (\<lambda>u. \<not> isl (crawlSingleUrl u)) urls)"

definition counted :: "page_source \<Rightarrow> nat \<Rightarrow> crawl_state \<Rightarrow> bool" where
  "counted crawlSingleUrl maxPages st \<longleftrightarrow>
     pagesCrawled st \<le> maxPages \<and> pagesCrawled st = succeeded crawlSingleUrl (attempts st)"

declare crawlRecursive.simps [simp del]

definition skips :: "nat \<Rightarrow> nat \<Rightarrow> string \<Rightarrow> nat \<Rightarrow> crawl_state \<Rightarrow> bool" where
  "skips maxDepth maxPages target depth st \<longleftrightarrow>
     target \<in> set (visited st) \<or> maxDepth < depth \<or> maxPages \<le> pagesCrawled st"

definition entered :: "string \<Rightarrow> crawl_state \<Rightarrow> crawl_state" where
  "entered target st = st\<lparr>visited := set_add target (visited st), attempts := attempts st @ [target]\<rparr>"

lemma crawlRecursive_skip:
  "skips maxDepth maxPages target depth st \<Longrightarrow> crawlRecursive f maxDepth maxPages target depth st = st"
  by (auto simp: skips_def crawlRecursive.simps [of f maxDepth maxPages target depth st])

lemma crawlRecursive_failed:
  "\<not> skips maxDepth maxPages target depth st \<Longrightarrow> f target = Inl e \<Longrightarrow>
   crawlRecursive f maxDepth maxPages target depth st = entered target st"
  by (simp add: skips_def entered_def crawlRecursive.simps [of f maxDepth maxPages target depth st])

lemma crawlRecursive_crawled:
  "\<not> skips maxDepth maxPages target depth st \<Longrightarrow> f target = Inr (markdown, discoveredUrls) \<Longrightarrow>
   crawlRecursive f maxDepth maxPages target depth st =
     crawl_discovered f maxDepth maxPages discoveredUrls depth
       ((entered target st)\<lparr>pagesCrawled := pagesCrawled st + 1\<rparr>)"
  by (simp add: skips_def entered_def crawlRecursive.simps [of f maxDepth maxPages target depth st])

lemma crawlRecursive_counted:
  "counted f maxPages st \<Longrightarrow> counted f maxPages (crawlRecursive f maxDepth maxPages target depth st)"
  "counted f maxPages st \<Longrightarrow> counted f maxPages (crawl_discovered f maxDepth maxPages urls depth st)"
proof (induction f maxDepth maxPages target depth st and f maxDepth maxPages urls depth st
    rule: crawlRecursive_crawl_discovered.induct)
  case (1 f maxDepth maxPages target depth st)
  show ?case
  proof (cases "skips maxDepth maxPages target depth st")
    case True
    with "1.prems" show ?thesis by (simp add: crawlRecursive_skip)
  next
    case False
    then have go: "target \<notin> set (visited st)" "\<not> maxDepth < depth" "\<not> maxPages \<le> pagesCrawled st"
      by (simp_all add: skips_def)
    show ?thesis
    proof (cases "f target")
      case (Inl e)
      with False "1.prems" show ?thesis
        by (simp add: crawlRecursive_failed counted_def succeeded_def entered_def)
    next
      case (Inr p)
      obtain markdown discoveredUrls where p: "p = (markdown, discoveredUrls)" by (cases p)
      have "counted f maxPages ((entered target st)\<lparr>pagesCrawled := pagesCrawled st + 1\<rparr>)"
        using go "1.prems" Inr by (simp add: counted_def succeeded_def entered_def)
      then have "counted f maxPages
          (crawl_discovered f maxDepth maxPages discoveredUrls depth
             ((entered target st)\<lparr>pagesCrawled := pagesCrawled st + 1\<rparr>))"
        using "1.IH" [OF go refl Inr p [symmetric]] by (simp add: entered_def)
      with False Inr p show ?thesis by (simp add: crawlRecursive_crawled)
    qed
  qed
next
  case (2 f maxDepth maxPages depth st)
  then show ?case by simp
next
  case (3 f maxDepth maxPages discoveredUrl rest depth st)
  then show ?case by simp
qed


lemma crawl_initial_counted:
  "counted f maxPages st \<Longrightarrow>
   counted f maxPages (foldl (\<lambda>st u. crawlRecursive f maxDepth maxPages u 1 st) st urls)"
  by (induction urls arbitrary: st) (simp_all add: crawlRecursive_counted)

lemma crawlWebsite_crawl_cap:
  assumes "crawlWebsite_crawl browser crawlSingleUrl target = Inr (markdown, st)"
  shows "pagesCrawled st = succeeded crawlSingleUrl (attempts st) \<and>
         succeeded crawlSingleUrl (attempts st) \<le> 500"
proof -
  from assms obtain links where first: "crawlSingleUrl target = Inr (markdown, links)"
    and st: "st = foldl (\<lambda>st u. crawlRecursive crawlSingleUrl 2 500 u 1 st)
                    \<lparr>visited = [target], pagesCrawled = 1, attempts = [target]\<rparr> links"
    by (auto simp: crawlWebsite_crawl_def and_then_def Let_def split: sum.splits prod.splits)
  have "counted crawlSingleUrl 500 \<lparr>visited = [target], pagesCrawled = 1, attempts = [target]\<rparr>"
    using first by (simp add: counted_def succeeded_def)
  then have "counted crawlSingleUrl 500 st"
    unfolding st by (rule crawl_initial_counted)
  then show ?thesis by (simp add: counted_def)
qed

lemma crawl_initial_all_fail:
  assumes "\<forall>u\<in>set urls. isl (f u)" and "distinct urls" and "set urls \<inter> set (visited st) = {}"
    and "pagesCrawled st < maxPages" and "1 \<le> maxDepth"
  shows "attempts (foldl (\<lambda>st u. crawlRecursive f maxDepth maxPages u 1 st) st urls)
       = attempts st @ urls"
  using assms
proof (induction urls arbitrary: st)
  case Nil
  show ?case by simp
next
  case (Cons u us)
  from Cons.prems have ns: "\<not> skips maxDepth maxPages u 1 st"
    by (simp add: skips_def)
  from Cons.prems obtain e where e: "f u = Inl e"
    by (cases "f u") auto
  have step: "crawlRecursive f maxDepth maxPages u 1 st = entered u st"
    using ns e by (rule crawlRecursive_failed)
  have "attempts (foldl (\<lambda>st u. crawlRecursive f maxDepth maxPages u 1 st) (entered u st) us)
      = attempts (entered u st) @ us"
    using Cons.prems by (intro Cons.IH) (auto simp: entered_def set_add_def)
  then show ?case
    unfolding foldl_Cons step by (simp add: entered_def)
qed

text \<open>A start page with 501 links, none of which can be fetched.\<close>

definition dead_link :: "nat \<Rightarrow> string" where
  "dead_link n = replicate (Suc n) CHR ''x''"

definition many_dead_links :: page_source where
  "many_dead_links u =
     (if u = ''root'' then Inr (''home'', map dead_link [0..<501]) else Inl (Error ''timeout''))"

definition working_browser :: browser_env where
  "working_browser = \<lparr>launchBrowser = Inr (), closeBrowser = Inr ()\<rparr>"

lemma dead_link_not_root: "dead_link n \<noteq> ''root''" "''root'' \<noteq> dead_link n"
  by (simp_all add: dead_link_def)

lemma distinct_dead_links: "distinct (map dead_link [0..<n])"
proof -
  have "inj dead_link"
  proof (rule injI)
    fix a b assume "dead_link a = dead_link b"
    then have "length (dead_link a) = length (dead_link b)" by simp
    then show "a = b" by (simp add: dead_link_def)
  qed
  then show ?thesis by (simp add: distinct_map inj_on_def)
qed

text \<open>
  C5, as stated, fails for \<^verbatim>\<open>crawlRecursive\<close>: only successful fetches are counted
  against \<^verbatim>\<open>maxPages\<close>. With the start page and its 501 dead links,
  \<^verbatim>\<open>crawlSingleUrl\<close> is called on 502 URLs, more than the cap of 500.
\<close>

theorem crawlWebsite_attempts_exceed_cap:
  "(case crawlWebsite_crawl working_browser many_dead_links ''root'' of
      Inl e \<Rightarrow> 0
    | Inr (markdown, st) \<Rightarrow> length (attempts st)) = 502"
proof -
  let ?st0 = "\<lparr>visited = [''root''], pagesCrawled = 1, attempts = [''root'']\<rparr>"
  have "attempts (foldl (\<lambda>st u. crawlRecursive many_dead_links 2 500 u 1 st) ?st0
          (map dead_link [0..<501]))
      = attempts ?st0 @ map dead_link [0..<501]"
  proof (rule crawl_initial_all_fail)
    show "\<forall>u\<in>set (map dead_link [0..<501]). isl (many_dead_links u)"
      by (auto simp: many_dead_links_def dead_link_not_root)
    show "distinct (map dead_link [0..<501])" by (rule distinct_dead_links)
    show "set (map dead_link [0..<501]) \<inter> set (visited ?st0) = {}"
      by (auto simp: dead_link_not_root simp del: upt_Suc)
  qed simp_all
  then show ?thesis
    by (simp add: crawlWebsite_crawl_def and_then_def working_browser_def Let_def
        many_dead_links_def del: upt_Suc)
qed

lemma crawl_batches_bound:
  "length (batch_attempts (crawl_batches f toVisit currentDepth st))
     \<le> length (batch_attempts st) + 50 * (3 - currentDepth)"
proof (induction f toVisit currentDepth st rule: crawl_batches.induct)
  case (1 f toVisit currentDepth st)
  let ?batch = "filter (\<lambda>u. u \<notin> set (batch_visited st)) (take 50 toVisit)"
  have len: "length ?batch \<le> 50"
    by (rule order_trans [OF length_filter_le]) simp
  show ?case
  proof (cases "toVisit \<noteq> [] \<and> currentDepth \<le> 2 \<and> length (batch_visited st) < 500")
    case False
    then show ?thesis by (subst crawl_batches.simps) auto
  next
    case True
    show ?thesis
    proof (cases "?batch = []")
      case True
      with \<open>toVisit \<noteq> [] \<and> currentDepth \<le> 2 \<and> length (batch_visited st) < 500\<close>
      show ?thesis by (simp add: crawl_batches.simps [of f toVisit currentDepth st] Let_def)
    next
      case False
      have "50 * (3 - currentDepth) = 50 + 50 * (3 - (currentDepth + 1))"
        using True by arith
      with "1.IH" [OF True refl refl False refl refl refl] True False len show ?thesis
        by (simp add: crawl_batches.simps [of f toVisit currentDepth st] Let_def)
    qed
  qed
qed

lemma crawlWebsite_batches_cap:
  assumes "crawlWebsite_batches browser crawlSingleUrl target = Inr st"
  shows "length (batch_attempts st) \<le> 500"
proof -
  from assms have "st = crawl_batches crawlSingleUrl [target] 0 \<lparr>batch_visited = [], batch_attempts = []\<rparr>"
    by (auto simp: crawlWebsite_batches_def and_then_def split: sum.splits)
  then show ?thesis
    using crawl_batches_bound [of crawlSingleUrl "[target]" 0 "\<lparr>batch_visited = [], batch_attempts = []\<rparr>"]
    by simp
qed


text \<open>
  C5, amended. In the recursive crawler the counter equals the number of URLs fetched
  successfully, and that number never exceeds the cap of 500 (failed attempts are not
  counted). In the batch crawler the number of URLs on which a fetch is attempted,
  successful or not, never exceeds 500.
\<close>

theorem crawl_page_cap:
  "(crawlWebsite_crawl browser crawlSingleUrl target = Inr (markdown, st) \<longrightarrow>
      pagesCrawled st = succeeded crawlSingleUrl (attempts st) \<and>
      succeeded crawlSingleUrl (attempts st) \<le> 500)
   \<and> (crawlWebsite_batches browser crawlSingleUrl target = Inr bst \<longrightarrow>
      length (batch_attempts bst) \<le> 500)"
  using crawlWebsite_crawl_cap crawlWebsite_batches_cap by blast

definition three_pages :: page_source where
  "three_pages u =
     (if u = ''https://docs.example/'' then Inr (''home'', [''https://docs.example/a'', ''https://docs.example/b''])
      else if u = ''https://docs.example/a'' then Inr (''a'', [''https://docs.example/'', ''https://docs.example/b''])
      else Inl (Error ''net::ERR_TIMED_OUT''))"

lemma three_pages_crawl:
  "crawlWebsite_crawl working_browser three_pages ''https://docs.example/''
     = Inr (''home'',
         \<lparr>visited = [''https://docs.example/'', ''https://docs.example/a'', ''https://docs.example/b''],
          pagesCrawled = 2,
          attempts = [''https://docs.example/'', ''https://docs.example/a'', ''https://docs.example/b'']\<rparr>)"
  by code_simp

lemma three_pages_batches:
  "crawlWebsite_batches working_browser three_pages ''https://docs.example/''
     = Inr \<lparr>batch_visited = [''https://docs.example/'', ''https://docs.example/a'', ''https://docs.example/b''],
            batch_attempts = [''https://docs.example/'', ''https://docs.example/a'', ''https://docs.example/b'']\<rparr>"
  by code_simp

theorem crawl_page_cap_witness:
  "succeeded three_pages [''https://docs.example/'', ''https://docs.example/a'', ''https://docs.example/b''] = 2
   \<and> succeeded three_pages [''https://docs.example/'', ''https://docs.example/a'', ''https://docs.example/b''] \<le> 500
   \<and> length [''https://docs.example/'', ''https://docs.example/a'', ''https://docs.example/b''] \<le> (500 :: nat)"
  using crawl_page_cap [of working_browser three_pages "''https://docs.example/''" "''home''"
      "\<lparr>visited = [''https://docs.example/'', ''https://docs.example/a'', ''https://docs.example/b''],
        pagesCrawled = 2,
        attempts = [''https://docs.example/'', ''https://docs.example/a'', ''https://docs.example/b'']\<rparr>"
      "\<lparr>batch_visited = [''https://docs.example/'', ''https://docs.example/a'', ''https://docs.example/b''],
        batch_attempts = [''https://docs.example/'', ''https://docs.example/a'', ''https://docs.example/b'']\<rparr>"]
    three_pages_crawl three_pages_batches
  by simp

section \<open>No URL is fetched twice by the recursive crawler\<close>

definition once :: "crawl_state \<Rightarrow> bool" where
  "once st \<longleftrightarrow> distinct (attempts st) \<and> set (attempts st) \<subseteq> set (visited st)"

lemma crawlRecursive_once:
  "once st \<Longrightarrow> once (crawlRecursive f maxDepth maxPages target depth st)"
  "once st \<Longrightarrow> once (crawl_discovered f maxDepth maxPages urls depth st)"
proof (induction f maxDepth maxPages target depth st and f maxDepth maxPages urls depth st
    rule: crawlRecursive_crawl_discovered.induct)
  case (1 f maxDepth maxPages target depth st)
  show ?case
  proof (cases "skips maxDepth maxPages target depth st")
    case True
    with "1.prems" show ?thesis by (simp add: crawlRecursive_skip)
  next
    case False
    then have go: "target \<notin> set (visited st)" "\<not> maxDepth < depth" "\<not> maxPages \<le> pagesCrawled st"
      by (simp_all add: skips_def)
    have e: "once (entered target st)"
      using go(1) "1.prems" by (auto simp: once_def entered_def set_add_def)
    show ?thesis
    proof (cases "f target")
      case (Inl err)
      with False e show ?thesis by (simp add: crawlRecursive_failed)
    next
      case (Inr p)
      obtain markdown discoveredUrls where p: "p = (markdown, discoveredUrls)" by (cases p)
      have "once ((entered target st)\<lparr>pagesCrawled := pagesCrawled st + 1\<rparr>)"
        using e by (simp add: once_def)
      then have "once (crawl_discovered f maxDepth maxPages discoveredUrls depth
             ((entered target st)\<lparr>pagesCrawled := pagesCrawled st + 1\<rparr>))"
        using "1.IH" [OF go refl Inr p [symmetric]] by (simp add: entered_def)
      with False Inr p show ?thesis by (simp add: crawlRecursive_crawled)
    qed
  qed
next
  case (2 f maxDepth maxPages depth st)
  then show ?case by simp
next
  case (3 f maxDepth maxPages discoveredUrl rest depth st)
  then show ?case by simp
qed

lemma crawlWebsite_crawl_once:
  assumes "crawlWebsite_crawl browser crawlSingleUrl target = Inr (markdown, st)"
  shows "distinct (attempts st)"
proof -
  from assms obtain ls where st: "st = foldl (\<lambda>st u. crawlRecursive crawlSingleUrl 2 500 u 1 st)
                    \<lparr>visited = [target], pagesCrawled = 1, attempts = [target]\<rparr> ls"
    by (auto simp: crawlWebsite_crawl_def and_then_def Let_def split: sum.splits prod.splits)
  have "once s \<Longrightarrow> once (foldl (\<lambda>st u. crawlRecursive crawlSingleUrl 2 500 u 1 st) s ls)" for s
    by (induction ls arbitrary: s) (simp_all add: crawlRecursive_once)
  moreover have "once \<lparr>visited = [target], pagesCrawled = 1, attempts = [target]\<rparr>"
    by (simp add: once_def)
  ultimately show ?thesis unfolding st by (simp add: once_def)
qed

section \<open>The task queue of the website crawlers\<close>

text \<open>
  Both versions of \<^verbatim>\<open>WebsiteCrawler\<close> run their tasks on a
  \<^verbatim>\<open>new PQueue({ concurrency: 2 })\<close>. JavaScript runs one synchronous section at a
  time, so a task is two sections: from its start to the point where it waits for its
  page, and from the arrival of the page to its end. The queue has the counter
  \<open>pending\<close> of started tasks, the tasks \<open>inflight\<close> that wait for their page, the
  tasks \<open>waiting\<close> for a slot, and the number \<open>settled\<close> of tasks that have ended
  but whose slot the queue has not taken back yet (it does so in a microtask, after the
  running section). \<open>shared\<close> is the state the tasks share.

  A task's first section is a function \<open>start\<close>: it returns what the task waits for,
  or \<open>None\<close> when the task ends without waiting. \<open>tryToStartAnother\<close> starts the
  oldest waiting task if fewer than two are pending; \<open>queue_add\<close> is
  \<^verbatim>\<open>queue.add(task)\<close>, which puts the task in the queue and tries to start one at once.
\<close>

record ('w, 'f, 's) pqueue =
  pending :: nat
  settled :: nat
  inflight :: "'f list"
  waiting :: "'w list"
  shared :: 's

definition tryToStartAnother ::
  "('w \<Rightarrow> 's \<Rightarrow> 'f option \<times> 's) \<Rightarrow> ('w, 'f, 's) pqueue \<Rightarrow> ('w, 'f, 's) pqueue" where
  "tryToStartAnother start q =
     (case waiting q of
        [] \<Rightarrow> q
      | t # ts \<Rightarrow>
          if pending q < 2
          then (case start t (shared q) of
                  (None, s) \<Rightarrow>
                    q\<lparr>waiting := ts, pending := pending q + 1, settled := settled q + 1, shared := s\<rparr>
                | (Some f, s) \<Rightarrow>
                    q\<lparr>waiting := ts, pending := pending q + 1, inflight := inflight q @ [f],
                      shared := s\<rparr>)
          else q)"

definition queue_add ::
  "('w \<Rightarrow> 's \<Rightarrow> 'f option \<times> 's) \<Rightarrow> 'w \<Rightarrow> ('w, 'f, 's) pqueue \<Rightarrow> ('w, 'f, 's) pqueue" where
  "queue_add start t q = tryToStartAnother start (q\<lparr>waiting := waiting q @ [t]\<rparr>)"

text \<open>
  \<open>settle\<close>: after a section, the queue takes back the slot of every ended task and
  tries to start a waiting task each time.
\<close>

lemma tryToStartAnother_measure:
  "settled (tryToStartAnother start q) + 2 * length (waiting (tryToStartAnother start q))
     \<le> settled q + 2 * length (waiting q)"
  by (auto simp: tryToStartAnother_def split: list.splits prod.splits option.splits)

function settle ::
  "('w \<Rightarrow> 's \<Rightarrow> 'f option \<times> 's) \<Rightarrow> ('w, 'f, 's) pqueue \<Rightarrow> ('w, 'f, 's) pqueue" where
  "settle start q =
     (if 0 < settled q
      then settle start
             (tryToStartAnother start (q\<lparr>settled := settled q - 1, pending := pending q - 1\<rparr>))
      else q)"
  by pat_completeness auto
termination
proof (relation "measure (\<lambda>(start, q). settled q + 2 * length (waiting q))", goal_cases)
  case 1
  show ?case by simp
next
  case (2 start q)
  have "settled (tryToStartAnother start (q\<lparr>settled := settled q - 1, pending := pending q - 1\<rparr>))
      + 2 * length (waiting (tryToStartAnother start (q\<lparr>settled := settled q - 1, pending := pending q - 1\<rparr>)))
      \<le> settled (q\<lparr>settled := settled q - 1, pending := pending q - 1\<rparr>)
        + 2 * length (waiting (q\<lparr>settled := settled q - 1, pending := pending q - 1\<rparr>))"
    by (rule tryToStartAnother_measure)
  with 2 show ?case by simp
qed

declare settle.simps [simp del]

text \<open>
  \<open>complete i\<close>: the page of the \<open>i\<close>-th task in flight arrives, the task's second
  section \<open>resume\<close> runs, the task ends, the queue settles. A schedule is the order in
  which the pages arrive: each number picks one of the tasks in flight. \<open>run\<close> follows
  a schedule until it is used up or no task is in flight.
\<close>

definition complete ::
  "('w \<Rightarrow> 's \<Rightarrow> 'f option \<times> 's) \<Rightarrow> ('f \<Rightarrow> ('w, 'f, 's) pqueue \<Rightarrow> ('w, 'f, 's) pqueue) \<Rightarrow>
   nat \<Rightarrow> ('w, 'f, 's) pqueue \<Rightarrow> ('w, 'f, 's) pqueue" where
  "complete start resume i q =
     (let f = inflight q ! i;
          q1 = q\<lparr>inflight := take i (inflight q) @ drop (Suc i) (inflight q)\<rparr>;
          q2 = resume f q1
      in settle start (q2\<lparr>settled := settled q2 + 1\<rparr>))"

fun run ::
  "('w \<Rightarrow> 's \<Rightarrow> 'f option \<times> 's) \<Rightarrow> ('f \<Rightarrow> ('w, 'f, 's) pqueue \<Rightarrow> ('w, 'f, 's) pqueue) \<Rightarrow>
   nat list \<Rightarrow> ('w, 'f, 's) pqueue \<Rightarrow> ('w, 'f, 's) pqueue" where
  "run start resume [] q = q"
| "run start resume (c # cs) q =
     (if inflight q = [] then q
      else run start resume cs (complete start resume (c mod length (inflight q)) q))"

text \<open>\<^verbatim>\<open>queue.onIdle()\<close> resolves when nothing is waiting and nothing is pending.\<close>

definition onIdle :: "('w, 'f, 's) pqueue \<Rightarrow> bool" where
  "onIdle q \<longleftrightarrow> waiting q = [] \<and> pending q = 0"

section \<open>The website crawlers (crawler.ts)\<close>

text \<open>
  \<^verbatim>\<open>CrawlJob\<close> and \<^verbatim>\<open>PageResult\<close> of types.ts; times are numbers. A \<open>site\<close> says
  what fetching and saving a page lead to: \<^verbatim>\<open>processPage\<close> either gets a page or
  catches an error with some message, and \<^verbatim>\<open>savePage\<close> either succeeds or catches an
  error for some file path. The crawler object has the \<^verbatim>\<open>visited\<close> set, the job and the
  href of the base URL; \<open>processed\<close> is not in the source: it records, in order, the URLs
  passed to \<^verbatim>\<open>processPage\<close>.
\<close>

datatype job_status = running | completed | failed

record CrawlJob =
  job_id :: string
  baseUrl :: string
  status :: job_status
  pagesProcessed :: nat
  errors :: "string list"
  startTime :: nat
  endTime :: "nat option"
  outputDir :: string

record PageResult =
  page_url :: string
  page_title :: string
  page_content :: string
  links :: "string list"

record site =
  processPage_outcome :: "string \<Rightarrow> string + PageResult"
  savePage_outcome :: "PageResult \<Rightarrow> (string \<times> string) option"

record crawler =
  visited_urls :: "string list"
  job :: CrawlJob
  base_href :: string
  processed :: "string list"

definition push_error :: "string \<Rightarrow> crawler \<Rightarrow> crawler" where
  "push_error msg c = c\<lparr>job := (job c)\<lparr>errors := errors (job c) @ [msg]\<rparr>\<rparr>"

definition processPage :: "site \<Rightarrow> string \<Rightarrow> crawler \<Rightarrow> PageResult option \<times> crawler" where
  "processPage web u c =
     (case processPage_outcome web u of
        Inl errorMessage \<Rightarrow> (None, push_error (''Failed to process '' @ u @ '': '' @ errorMessage) c)
      | Inr result \<Rightarrow> (Some result, c))"

definition savePage :: "site \<Rightarrow> PageResult \<Rightarrow> crawler \<Rightarrow> crawler" where
  "savePage web result c =
     (case savePage_outcome web result of
        None \<Rightarrow> c
      | Some (filePath, errorMessage) \<Rightarrow>
          push_error (''Failed to save '' @ filePath @ '': '' @ errorMessage) c)"

definition count_page :: "crawler \<Rightarrow> crawler" where
  "count_page c = c\<lparr>job := (job c)\<lparr>pagesProcessed := pagesProcessed (job c) + 1\<rparr>\<rparr>"

text \<open>
  The constructor; \<^verbatim>\<open>new URL(baseUrl)\<close> has no base, which is the empty string here,
  and throws on a base URL it cannot parse.
\<close>

definition WebsiteCrawler_new ::
  "url_parser \<Rightarrow> nat \<Rightarrow> string \<Rightarrow> string \<Rightarrow> string \<Rightarrow> crawler result" where
  "WebsiteCrawler_new URL_new now jobId base outDir =
     (case URL_new base [] of
        Inl e \<Rightarrow> Inl e
      | Inr href \<Rightarrow>
          Inr \<lparr>visited_urls = [],
               job = \<lparr>job_id = jobId, baseUrl = base, status = running, pagesProcessed = 0,
                      errors = [], startTime = now, endTime = None, outputDir = outDir\<rparr>,
               base_href = href, processed = []\<rparr>)"

text \<open>
  The later \<^verbatim>\<open>crawl\<close>. A task is \<^verbatim>\<open>processUrl(target, depth)\<close>: its first section
  normalises the URL, ends the task if the URL was visited_urls, and otherwise marks it
  visited_urls and calls \<^verbatim>\<open>processPage\<close>; its second section saves and counts the page and,
  below \<^verbatim>\<open>MAX_DEPTH\<close>, adds a task for every link not yet visited_urls. \<^verbatim>\<open>processPage\<close>
  and \<^verbatim>\<open>savePage\<close> catch their own errors, so the \<^verbatim>\<open>catch\<close> clauses of
  \<^verbatim>\<open>processUrl\<close> and of \<^verbatim>\<open>crawl\<close> are never entered. \<open>crawl\<close> is \<open>None\<close> when
  the schedule ends before the queue is idle.
\<close>

definition MAX_DEPTH :: nat where "MAX_DEPTH = 2"

definition processUrl_start ::
  "url_parser \<Rightarrow> string \<times> nat \<Rightarrow> crawler \<Rightarrow> (string \<times> nat) option \<times> crawler" where
  "processUrl_start URL_new task c =
     (case task of (u, depth) \<Rightarrow>
        let normalizedUrl = normalizeUrl URL_new u (base_href c)
        in if normalizedUrl \<in> set (visited_urls c) then (None, c)
           else (Some (normalizedUrl, depth),
                 c\<lparr>visited_urls := set_add normalizedUrl (visited_urls c),
                   processed := processed c @ [normalizedUrl]\<rparr>))"

fun enqueue_links ::
  "url_parser \<Rightarrow> string list \<Rightarrow> nat \<Rightarrow> (string \<times> nat, string \<times> nat, crawler) pqueue \<Rightarrow>
   (string \<times> nat, string \<times> nat, crawler) pqueue" where
  "enqueue_links URL_new [] depth q = q"
| "enqueue_links URL_new (link # rest) depth q =
     enqueue_links URL_new rest depth
       (if link \<notin> set (visited_urls (shared q))
        then queue_add (processUrl_start URL_new) (link, depth + 1) q
        else q)"

definition processUrl_resume ::
  "url_parser \<Rightarrow> site \<Rightarrow> string \<times> nat \<Rightarrow> (string \<times> nat, string \<times> nat, crawler) pqueue \<Rightarrow>
   (string \<times> nat, string \<times> nat, crawler) pqueue" where
  "processUrl_resume URL_new web task q =
     (case task of (normalizedUrl, depth) \<Rightarrow>
        case processPage web normalizedUrl (shared q) of
          (None, c) \<Rightarrow> q\<lparr>shared := c\<rparr>
        | (Some result, c) \<Rightarrow>
            let q1 = q\<lparr>shared := count_page (savePage web result c)\<rparr>
            in if depth < MAX_DEPTH then enqueue_links URL_new (links result) depth q1 else q1)"

definition finish_crawl :: "nat \<Rightarrow> CrawlJob \<Rightarrow> CrawlJob" where
  "finish_crawl now j =
     (if pagesProcessed j = 0
      then j\<lparr>status := failed,
             errors := (if errors j = []
                        then errors j @ [''Crawl failed: No pages were processed successfully'']
                        else errors j),
             endTime := Some now\<rparr>
      else j\<lparr>status := completed, endTime := Some now\<rparr>)"

definition crawl ::
  "url_parser \<Rightarrow> site \<Rightarrow> nat list \<Rightarrow> nat \<Rightarrow> crawler \<Rightarrow> crawler option" where
  "crawl URL_new web schedule now c =
     (let q0 = queue_add (processUrl_start URL_new) (base_href c, 0)
                 \<lparr>pending = 0, settled = 0, inflight = [], waiting = [], shared = c\<rparr>;
          q1 = settle (processUrl_start URL_new) q0;
          q = run (processUrl_start URL_new) (processUrl_resume URL_new web) schedule q1
      in if onIdle q then Some ((shared q)\<lparr>job := finish_crawl now (job (shared q))\<rparr>)
         else None)"

text \<open>
  The earlier \<^verbatim>\<open>crawl\<close>. The base task checks and marks the normalised base URL and,
  when its page arrives, adds a task for every link that is not visited_urls at that moment;
  such a task marks its link visited_urls only when it starts, and fetches it without a check.
\<close>

datatype link_task = BaseTask | LinkTask string

definition task_start ::
  "url_parser \<Rightarrow> link_task \<Rightarrow> crawler \<Rightarrow> (bool \<times> string) option \<times> crawler" where
  "task_start URL_new task c =
     (case task of
        BaseTask \<Rightarrow>
          let normalizedUrl = normalizeUrl URL_new (base_href c) (base_href c)
          in if normalizedUrl \<notin> set (visited_urls c)
             then (Some (True, normalizedUrl),
                   c\<lparr>visited_urls := set_add normalizedUrl (visited_urls c),
                     processed := processed c @ [normalizedUrl]\<rparr>)
             else (None, c)
      | LinkTask link \<Rightarrow>
          (Some (False, link),
           c\<lparr>visited_urls := set_add link (visited_urls c), processed := processed c @ [link]\<rparr>))"

fun add_link_tasks ::
  "url_parser \<Rightarrow> string list \<Rightarrow> (link_task, bool \<times> string, crawler) pqueue \<Rightarrow>
   (link_task, bool \<times> string, crawler) pqueue" where
  "add_link_tasks URL_new [] q = q"
| "add_link_tasks URL_new (link # rest) q =
     add_link_tasks URL_new rest
       (if link \<notin> set (visited_urls (shared q))
        then queue_add (task_start URL_new) (LinkTask link) q
        else q)"

definition task_resume ::
  "url_parser \<Rightarrow> site \<Rightarrow> bool \<times> string \<Rightarrow> (link_task, bool \<times> string, crawler) pqueue \<Rightarrow>
   (link_task, bool \<times> string, crawler) pqueue" where
  "task_resume URL_new web task q =
     (case task of (is_base, u) \<Rightarrow>
        case processPage web u (shared q) of
          (None, c) \<Rightarrow> q\<lparr>shared := c\<rparr>
        | (Some result, c) \<Rightarrow>
            let q1 = q\<lparr>shared := count_page (savePage web result c)\<rparr>
            in if is_base then add_link_tasks URL_new (links result) q1 else q1)"

definition crawl_v1 ::
  "url_parser \<Rightarrow> site \<Rightarrow> nat list \<Rightarrow> nat \<Rightarrow> crawler \<Rightarrow> crawler option" where
  "crawl_v1 URL_new web schedule now c =
     (let q0 = queue_add (task_start URL_new) BaseTask
                 \<lparr>pending = 0, settled = 0, inflight = [], waiting = [], shared = c\<rparr>;
          q1 = settle (task_start URL_new) q0;
          q = run (task_start URL_new) (task_resume URL_new web) schedule q1
      in if onIdle q
         then Some ((shared q)\<lparr>job := (job (shared q))\<lparr>status := completed, endTime := Some now\<rparr>\<rparr>)
         else None)"

section \<open>The final status of a crawl job\<close>

text \<open>
  \<open>loaded web urls\<close> counts the URLs whose page can be fetched. Two facts hold
  throughout a crawl: the queue's counter is the number of tasks in flight or settled
  (\<open>slots\<close>), and the pages counted so far plus the fetchable pages in flight are the
  fetchable pages among those passed to \<^verbatim>\<open>processPage\<close> (\<open>tally\<close>).
\<close>

definition loaded :: "site \<Rightarrow> string list \<Rightarrow> nat" where
  "loaded web urls = length (filter (\<lambda>u. \<not> isl (processPage_outcome web u)) urls)"

definition slots :: "nat \<Rightarrow> ('w, 'f, 's) pqueue \<Rightarrow> bool" where
  "slots k q \<longleftrightarrow> pending q = length (inflight q) + settled q + k"

definition tally :: "site \<Rightarrow> ('w, string \<times> nat, crawler) pqueue \<Rightarrow> bool" where
  "tally web q \<longleftrightarrow>
     pagesProcessed (job (shared q)) + loaded web (map fst (inflight q))
       = loaded web (processed (shared q))"

lemma loaded_append [simp]: "loaded web (xs @ ys) = loaded web xs + loaded web ys"
  by (simp add: loaded_def)

lemma loaded_Nil [simp]: "loaded web [] = 0"
  by (simp add: loaded_def)

lemma loaded_Cons [simp]:
  "loaded web (x # xs) = (if isl (processPage_outcome web x) then 0 else 1) + loaded web xs"
  by (simp add: loaded_def)

lemma tryToStartAnother_slots: "slots k q \<Longrightarrow> slots k (tryToStartAnother start q)"
  by (auto simp: slots_def tryToStartAnother_def split: list.splits prod.splits option.splits)

lemma processUrl_start_None:
  "processUrl_start URL_new t c = (None, c') \<Longrightarrow> c' = c"
  by (auto simp: processUrl_start_def Let_def split: prod.splits if_splits)

lemma processUrl_start_Some:
  "processUrl_start URL_new t c = (Some f, c') \<Longrightarrow>
   processed c' = processed c @ [fst f] \<and> job c' = job c"
  by (auto simp: processUrl_start_def Let_def split: prod.splits if_splits)

lemma tryToStartAnother_tally:
  "tally web q \<Longrightarrow> tally web (tryToStartAnother (processUrl_start URL_new) q)"
  by (auto simp: tally_def tryToStartAnother_def
      split: list.splits prod.splits option.splits
      dest!: processUrl_start_None processUrl_start_Some)

lemma queue_add_slots: "slots k q \<Longrightarrow> slots k (queue_add start t q)"
  unfolding queue_add_def by (rule tryToStartAnother_slots) (simp add: slots_def)

lemma queue_add_tally:
  "tally web q \<Longrightarrow> tally web (queue_add (processUrl_start URL_new) t q)"
  unfolding queue_add_def by (rule tryToStartAnother_tally) (simp add: tally_def)

lemma settle_slots: "slots 0 q \<Longrightarrow> slots 0 (settle start q)"
proof (induction start q rule: settle.induct)
  case (1 start q)
  show ?case
  proof (cases "0 < settled q")
    case True
    have "slots 0 (q\<lparr>settled := settled q - 1, pending := pending q - 1\<rparr>)"
      using "1.prems" True by (simp add: slots_def)
    then have "slots 0 (tryToStartAnother start (q\<lparr>settled := settled q - 1, pending := pending q - 1\<rparr>))"
      by (rule tryToStartAnother_slots)
    with "1.IH" [OF True] True show ?thesis
      by (simp add: settle.simps [of start q])
  next
    case False
    with "1.prems" show ?thesis by (simp add: settle.simps [of start q])
  qed
qed

lemma settle_tally:
  "tally web q \<Longrightarrow> tally web (settle (processUrl_start URL_new) q)"
proof (induction "processUrl_start URL_new" q rule: settle.induct)
  case (1 q)
  show ?case
  proof (cases "0 < settled q")
    case True
    have "tally web (q\<lparr>settled := settled q - 1, pending := pending q - 1\<rparr>)"
      using "1.prems" by (simp add: tally_def)
    then have "tally web (tryToStartAnother (processUrl_start URL_new)
        (q\<lparr>settled := settled q - 1, pending := pending q - 1\<rparr>))"
      by (rule tryToStartAnother_tally)
    with "1.hyps" [OF True] True show ?thesis
      by (simp add: settle.simps [of _ q])
  next
    case False
    with "1.prems" show ?thesis by (simp add: settle.simps [of _ q])
  qed
qed

lemma enqueue_links_slots: "slots k q \<Longrightarrow> slots k (enqueue_links URL_new ls depth q)"
  by (induction ls arbitrary: q) (simp_all add: queue_add_slots)

lemma enqueue_links_tally: "tally web q \<Longrightarrow> tally web (enqueue_links URL_new ls depth q)"
  by (induction ls arbitrary: q) (simp_all add: queue_add_tally)

lemma savePage_job:
  "pagesProcessed (job (savePage web r c)) = pagesProcessed (job c) \<and>
   processed (savePage web r c) = processed c"
  by (simp add: savePage_def push_error_def split: option.splits prod.splits)

lemma complete_inv:
  assumes "slots 0 q" "tally web q" "i < length (inflight q)"
  shows "slots 0 (complete (processUrl_start URL_new) (processUrl_resume URL_new web) i q) \<and>
         tally web (complete (processUrl_start URL_new) (processUrl_resume URL_new web) i q)"
proof -
  let ?q1 = "q\<lparr>inflight := take i (inflight q) @ drop (Suc i) (inflight q)\<rparr>"
  let ?q2 = "processUrl_resume URL_new web (inflight q ! i) ?q1"
  obtain n depth where f: "inflight q ! i = (n, depth)" by (cases "inflight q ! i")
  have split: "inflight q = take i (inflight q) @ (n, depth) # drop (Suc i) (inflight q)"
    using assms(3) f by (metis id_take_nth_drop)
  have s1: "slots 1 ?q1"
    using assms(1,3) by (simp add: slots_def)
  have t1: "pagesProcessed (job (shared q)) + loaded web (map fst (inflight ?q1))
              + loaded web [n] = loaded web (processed (shared q))"
    using assms(2) by (subst (asm) tally_def, subst (asm) split) simp
  have "slots 1 ?q2 \<and> tally web ?q2"
  proof (cases "processPage_outcome web n")
    case (Inl msg)
    then show ?thesis
      using s1 t1 by (simp add: f processUrl_resume_def processPage_def push_error_def
          slots_def tally_def)
  next
    case (Inr result)
    let ?q3 = "?q1\<lparr>shared := count_page (savePage web result (shared q))\<rparr>"
    have "slots 1 ?q3" using s1 by (simp add: slots_def)
    moreover have "tally web ?q3"
      using t1 Inr savePage_job [of web result "shared q"]
      by (simp add: tally_def count_page_def)
    ultimately have "slots 1 (if depth < MAX_DEPTH then enqueue_links URL_new (links result) depth ?q3 else ?q3)
        \<and> tally web (if depth < MAX_DEPTH then enqueue_links URL_new (links result) depth ?q3 else ?q3)"
      by (simp add: enqueue_links_slots enqueue_links_tally)
    then show ?thesis
      using Inr by (simp add: f processUrl_resume_def processPage_def Let_def)
  qed
  then have "slots 0 (?q2\<lparr>settled := settled ?q2 + 1\<rparr>) \<and> tally web (?q2\<lparr>settled := settled ?q2 + 1\<rparr>)"
    by (simp add: slots_def tally_def)
  then show ?thesis
    by (simp add: complete_def Let_def settle_slots settle_tally)
qed

lemma run_inv:
  "slots 0 q \<Longrightarrow> tally web q \<Longrightarrow>
   slots 0 (run (processUrl_start URL_new) (processUrl_resume URL_new web) schedule q) \<and>
   tally web (run (processUrl_start URL_new) (processUrl_resume URL_new web) schedule q)"
proof (induction schedule arbitrary: q)
  case Nil
  then show ?case by simp
next
  case (Cons c cs)
  show ?case
  proof (cases "inflight q = []")
    case True
    with Cons.prems show ?thesis by simp
  next
    case False
    then have "c mod length (inflight q) < length (inflight q)" by simp
    from complete_inv [OF Cons.prems this] Cons.IH False show ?thesis by simp
  qed
qed

lemma finish_crawl_status:
  "(status (finish_crawl now j) = failed \<longleftrightarrow> pagesProcessed j = 0) \<and>
   (0 < pagesProcessed j \<longrightarrow> status (finish_crawl now j) = completed) \<and>
   pagesProcessed (finish_crawl now j) = pagesProcessed j"
  by (simp add: finish_crawl_def)

text \<open>
  C4. When the queue of a newly constructed crawler becomes idle, the job is
  \<open>failed\<close> exactly if no page was processed, and \<open>completed\<close> if at least one was,
  whatever the error list holds; the number of pages processed is the number of
  URLs passed to \<^verbatim>\<open>processPage\<close> whose page could be fetched.
\<close>

theorem crawl_final_status:
  assumes "WebsiteCrawler_new URL_new t0 jobId base out = Inr c"
      and "crawl URL_new web schedule now c = Some c'"
  shows "(status (job c') = failed \<longleftrightarrow> pagesProcessed (job c') = 0)
       \<and> (0 < pagesProcessed (job c') \<longrightarrow> status (job c') = completed)
       \<and> pagesProcessed (job c') = loaded web (processed c')"
proof -
  let ?start = "processUrl_start URL_new"
  let ?init = "\<lparr>pending = 0, settled = 0, inflight = [], waiting = [], shared = c\<rparr>
      :: (string \<times> nat, string \<times> nat, crawler) pqueue"
  let ?q = "run ?start (processUrl_resume URL_new web) schedule
      (settle ?start (queue_add ?start (base_href c, 0) ?init))"
  from assms(1) have fresh: "processed c = []" "pagesProcessed (job c) = 0"
    by (auto simp: WebsiteCrawler_new_def split: sum.splits)
  have "slots 0 ?init" "tally web ?init"
    using fresh by (simp_all add: slots_def tally_def)
  then have "slots 0 (settle ?start (queue_add ?start (base_href c, 0) ?init))"
    and "tally web (settle ?start (queue_add ?start (base_href c, 0) ?init))"
    by (simp_all add: settle_slots settle_tally queue_add_slots queue_add_tally)
  then have inv: "slots 0 ?q" "tally web ?q"
    using run_inv by blast+
  from assms(2) have idle: "onIdle ?q"
    and c': "c' = (shared ?q)\<lparr>job := finish_crawl now (job (shared ?q))\<rparr>"
    by (auto simp: crawl_def Let_def split: if_splits)
  from idle inv(1) have "inflight ?q = []"
    by (simp add: onIdle_def slots_def)
  with inv(2) have "pagesProcessed (job (shared ?q)) = loaded web (processed (shared ?q))"
    by (simp add: tally_def)
  then show ?thesis
    unfolding c' using finish_crawl_status [of now "job (shared ?q)"] by simp
qed


section \<open>A small site\<close>

text \<open>
  The start page links to \<open>/x\<close> and twice to \<open>/y\<close>; \<open>/x\<close> links to \<open>/y\<close> and
  \<open>/z\<close>; \<open>/y\<close> and \<open>/z\<close> time out. \<open>example_parser\<close> stands for the platform's
  parser on the URLs of this site, which are absolute and serialised already, but for
  the base URL, whose href gets its slash.
\<close>

definition example_parser :: url_parser where
  "example_parser u b = (if u = ''https://docs.example'' then Inr ''https://docs.example/'' else Inr u)"

definition docs_site :: site where
  "docs_site =
     \<lparr>processPage_outcome = (\<lambda>u.
         if u = ''https://docs.example''
         then Inr \<lparr>page_url = u, page_title = ''Docs'', page_content = ''home'',
                   links = [''https://docs.example/x'', ''https://docs.example/y'',
                            ''https://docs.example/y'']\<rparr>
         else if u = ''https://docs.example/x''
         then Inr \<lparr>page_url = u, page_title = ''X'', page_content = ''x'',
                   links = [''https://docs.example/y'', ''https://docs.example/z'']\<rparr>
         else Inl ''timeout''),
      savePage_outcome = (\<lambda>r. None)\<rparr>"

definition dead_site :: site where
  "dead_site = \<lparr>processPage_outcome = (\<lambda>u. Inl ''timeout''), savePage_outcome = (\<lambda>r. None)\<rparr>"

definition docs_crawler :: crawler where
  "docs_crawler =
     \<lparr>visited_urls = [],
      job = \<lparr>job_id = ''1'', baseUrl = ''https://docs.example'', status = running,
             pagesProcessed = 0, errors = [], startTime = 0, endTime = None,
             outputDir = ''out''\<rparr>,
      base_href = ''https://docs.example/'', processed = []\<rparr>"

lemma docs_crawler_new:
  "WebsiteCrawler_new example_parser 0 ''1'' ''https://docs.example'' ''out'' = Inr docs_crawler"
  by (simp add: WebsiteCrawler_new_def example_parser_def docs_crawler_def)

lemma docs_site_crawl:
  "crawl example_parser docs_site [0, 0, 0, 0] 1 docs_crawler
     = Some \<lparr>visited_urls = [''https://docs.example'', ''https://docs.example/x'',
                         ''https://docs.example/y'', ''https://docs.example/z''],
             job = \<lparr>job_id = ''1'', baseUrl = ''https://docs.example'', status = completed,
                    pagesProcessed = 2,
                    errors = [''Failed to process https://docs.example/y: timeout'',
                              ''Failed to process https://docs.example/z: timeout''],
                    startTime = 0, endTime = Some 1, outputDir = ''out''\<rparr>,
             base_href = ''https://docs.example/'',
             processed = [''https://docs.example'', ''https://docs.example/x'',
                          ''https://docs.example/y'', ''https://docs.example/z'']\<rparr>"
  by code_simp

lemma dead_site_crawl:
  "crawl example_parser dead_site [0] 1 docs_crawler
     = Some \<lparr>visited_urls = [''https://docs.example''],
             job = \<lparr>job_id = ''1'', baseUrl = ''https://docs.example'', status = failed,
                    pagesProcessed = 0,
                    errors = [''Failed to process https://docs.example: timeout''],
                    startTime = 0, endTime = Some 1, outputDir = ''out''\<rparr>,
             base_href = ''https://docs.example/'',
             processed = [''https://docs.example'']\<rparr>"
  by code_simp

theorem crawl_final_status_witness:
  "status (job (the (crawl example_parser docs_site [0, 0, 0, 0] 1 docs_crawler))) = completed
   \<and> pagesProcessed (job (the (crawl example_parser docs_site [0, 0, 0, 0] 1 docs_crawler))) = 2
   \<and> errors (job (the (crawl example_parser docs_site [0, 0, 0, 0] 1 docs_crawler))) \<noteq> []
   \<and> status (job (the (crawl example_parser dead_site [0] 1 docs_crawler))) = failed
   \<and> pagesProcessed (job (the (crawl example_parser dead_site [0] 1 docs_crawler))) = 0"
  unfolding docs_site_crawl dead_site_crawl
  using crawl_final_status [OF docs_crawler_new docs_site_crawl]
    crawl_final_status [OF docs_crawler_new dead_site_crawl]
  by simp

text \<open>
  C6 fails for the earlier \<^verbatim>\<open>crawl\<close>: on the small site, whose start page has two
  links to \<open>/y\<close>, both links are put in the queue before either task has marked
  \<open>/y\<close> visited_urls, and \<^verbatim>\<open>processPage\<close> is called on \<open>/y\<close> twice.
\<close>

theorem crawl_v1_fetches_twice:
  "map_option processed (crawl_v1 example_parser docs_site [0, 0, 0, 0] 1 docs_crawler)
     = Some [''https://docs.example'', ''https://docs.example/x'',
             ''https://docs.example/y'', ''https://docs.example/y'']
   \<and> \<not> distinct [''https://docs.example'', ''https://docs.example/x'',
                    ''https://docs.example/y'', ''https://docs.example/y'']"
proof
  show "map_option processed (crawl_v1 example_parser docs_site [0, 0, 0, 0] 1 docs_crawler)
     = Some [''https://docs.example'', ''https://docs.example/x'',
             ''https://docs.example/y'', ''https://docs.example/y'']"
    by code_simp
  show "\<not> distinct [''https://docs.example'', ''https://docs.example/x'',
                    ''https://docs.example/y'', ''https://docs.example/y'']"
    by simp
qed

section \<open>Saving chunks to Qdrant (data.ts)\<close>

text \<open>
  The decimal numeral of a number, as a template literal prints an array index.
\<close>

function decimal :: "nat \<Rightarrow> string" where
  "decimal n = (if n < 10 then [char_of (48 + n)] else decimal (n div 10) @ [char_of (48 + n mod 10)])"
  by pat_completeness auto
termination
  by (relation "measure id") auto

declare decimal.simps [simp del]

text \<open>
  A point as \<^verbatim>\<open>saveChunksToQdrant\<close> builds it. The collection maps the identifier of a
  point to the point, in the order of insertion; \<open>uuid_count\<close> is the number of identifiers
  drawn so far. \<^verbatim>\<open>crypto.randomUUID()\<close> is the function \<open>randomUUID\<close> of the number of
  earlier draws, and \<open>upsert_ok\<close> tells whether \<^verbatim>\<open>qdrant.upsert\<close> accepts a batch or throws.
\<close>

record qdrant_point =
  pt_id :: string
  vector :: "real list"
  pt_payload :: "js_string qdrant_payload"

record qdrant_db =
  points :: "(string \<times> qdrant_point) list"
  uuid_count :: nat

record qdrant_client =
  randomUUID :: "nat \<Rightarrow> string"
  upsert_ok :: "qdrant_point list \<Rightarrow> bool"

text \<open>\<^verbatim>\<open>Promise.all(chunks.map((chunkText) => embedChunk(chunkText)))\<close>.\<close>

fun embed_all :: "js_string qdrant_env \<Rightarrow> js_string list \<Rightarrow> real list list result" where
  "embed_all env [] = Inr []"
| "embed_all env (chunkText # rest) =
     and_then (embedChunk env chunkText) (\<lambda>embedding.
     and_then (embed_all env rest) (\<lambda>embeddings. Inr (embedding # embeddings)))"

definition make_point ::
  "qdrant_client \<Rightarrow> nat \<Rightarrow> string \<Rightarrow> string \<Rightarrow> js_string list \<Rightarrow> nat \<Rightarrow> real list \<Rightarrow> qdrant_point" where
  "make_point client first target isoTime chunks idx embedding =
     \<lparr>pt_id = randomUUID client (first + idx),
      vector = embedding,
      pt_payload = \<lparr>payload_url = target,
                     chunk_id = Some (target @ ''#chunk-'' @ decimal idx),
                     payload_content = Some (chunks ! idx),
                     timestamp = isoTime\<rparr>\<rparr>"

text \<open>
  \<^verbatim>\<open>qdrant.upsert\<close> stores every point of the batch under its identifier and replaces a
  point that has the same identifier. The loop sends batches of twenty points; a batch
  whose upsert throws is logged and skipped.
\<close>

definition upsert :: "qdrant_point list \<Rightarrow> (string \<times> qdrant_point) list \<Rightarrow> (string \<times> qdrant_point) list" where
  "upsert batch coll = foldl (\<lambda>c p. AList.update (pt_id p) p c) coll batch"

function upsert_batches ::
  "qdrant_client \<Rightarrow> qdrant_point list \<Rightarrow> nat \<Rightarrow> (string \<times> qdrant_point) list \<Rightarrow> (string \<times> qdrant_point) list" where
  "upsert_batches client allPoints i coll =
     (if i < length allPoints
      then let batch = take 20 (drop i allPoints)
           in upsert_batches client allPoints (i + 20)
                (if upsert_ok client batch then upsert batch coll else coll)
      else coll)"
  by pat_completeness auto
termination
  by (relation "measure (\<lambda>(client, allPoints, i, coll). length allPoints - i)") auto

declare upsert_batches.simps [simp del]

definition saveChunksToQdrant ::
  "js_string qdrant_env \<Rightarrow> qdrant_client \<Rightarrow> string \<Rightarrow> js_string \<Rightarrow> string \<Rightarrow> qdrant_db \<Rightarrow> qdrant_db result" where
  "saveChunksToQdrant env client target markdown isoTime db =
     and_then (loadEmbedder env) (\<lambda>_.
       let chunks = chunkMarkdownSlidingWindow markdown
       in and_then (embed_all env chunks) (\<lambda>chunkEmbeddings.
            let allPoints = map (\<lambda>(idx, embedding).
                                   make_point client (uuid_count db) target isoTime chunks idx embedding)
                              (enumerate 0 chunkEmbeddings)
            in Inr \<lparr>points = upsert_batches client allPoints 0 (points db),
                    uuid_count = uuid_count db + length chunkEmbeddings\<rparr>))"

text \<open>The number of points of a collection whose payload carries a given URL.\<close>

definition stored_chunks :: "(string \<times> qdrant_point) list \<Rightarrow> string \<Rightarrow> nat" where
  "stored_chunks coll target =
     length (filter (\<lambda>(k, p). payload_url (pt_payload p) = target) coll)"

section \<open>Indexing documents (index-db.ts)\<close>

text \<open>
  \<^verbatim>\<open>text.match(/[^.!?]+[.!?]+/g)\<close>: the successive matches of a non-empty run of
  characters other than \<open>.\<close>, \<open>!\<close> and \<open>?\<close> followed by a non-empty run of these three.
  Terminators before the first run are skipped, and a last run with no terminator after
  it is not matched.
\<close>

definition is_terminator :: "js_char \<Rightarrow> bool" where
  "is_terminator c \<longleftrightarrow> c = 0x2E \<or> c = 0x21 \<or> c = 0x3F"

function sentences_of :: "js_string \<Rightarrow> js_string list" where
  "sentences_of s =
     (let s1 = dropWhile is_terminator s;
          body = takeWhile (\<lambda>c. \<not> is_terminator c) s1;
          rest = dropWhile (\<lambda>c. \<not> is_terminator c) s1;
          marks = takeWhile is_terminator rest;
          rest1 = dropWhile is_terminator rest
      in if body = [] \<or> marks = [] then []
         else (body @ marks) # sentences_of rest1)"
  by pat_completeness auto
termination
proof (relation "measure length", goal_cases)
  case 1
  show ?case by simp
next
  case (2 s s1 body rest marks rest1)
  then have "body \<noteq> []" by simp
  moreover have "length s1 = length body + length rest"
    unfolding 2 by (metis length_append takeWhile_dropWhile_id)
  ultimately have "length rest < length s1" by simp
  moreover have "length rest1 \<le> length rest" unfolding 2 by (rule length_dropWhile_le)
  moreover have "length s1 \<le> length s" unfolding 2 by (rule length_dropWhile_le)
  ultimately show ?case by simp
qed

declare sentences_of.simps [simp del]

text \<open>\<^verbatim>\<open>String.prototype.trim\<close>, and \<^verbatim>\<open>splitIntoChunks\<close> with its default size 6000.\<close>

definition trim :: "js_string \<Rightarrow> js_string" where
  "trim s = rev (dropWhile is_space (rev (dropWhile is_space s)))"

definition split_step :: "nat \<Rightarrow> js_string list \<times> js_string \<Rightarrow> js_string \<Rightarrow> js_string list \<times> js_string" where
  "split_step maxChunkSize acc sentence =
     (case acc of (chunks, currentChunk) \<Rightarrow>
        if maxChunkSize < length (currentChunk @ sentence) \<and> 0 < length currentChunk
        then (chunks @ [trim currentChunk], sentence @ [0x20])
        else (chunks, currentChunk @ sentence @ [0x20]))"

definition splitIntoChunks :: "js_string \<Rightarrow> js_string list" where
  "splitIntoChunks text =
     (let matched = sentences_of text;
          sentences = (if matched = [] then [text] else matched)
      in case foldl (split_step 6000) ([], []) sentences of
           (chunks, currentChunk) \<Rightarrow>
             if 0 < length (trim currentChunk) then chunks @ [trim currentChunk] else chunks)"

text \<open>
  A crawled page as \<^verbatim>\<open>JSON.parse\<close> returns it (\<open>None\<close> is an absent field), a chunk of
  the index, and the environment of the indexer: the listing of the source directory,
  the content of a file, the JSON parser, the embedding service for one chunk, and
  whether a file of the index directory can be written. The index directory maps the
  name of an index file to the chunks written to it.
\<close>

record document =
  doc_url :: "string option"
  doc_title :: "string option"
  doc_content :: "js_string option"

record DocumentChunk =
  chunk_ident :: string
  chunk_url :: string
  chunk_title :: string
  chunk_content :: js_string
  embedding :: "real list"

record index_env =
  readdirSync :: "string list result"
  readFileSync :: "string \<Rightarrow> js_string result"
  JSON_parse :: "js_string \<Rightarrow> document result"
  openai_embed :: "js_string \<Rightarrow> real list result"
  writeFile_ok :: "string \<Rightarrow> bool"

type_synonym index_dir = "string \<rightharpoonup> DocumentChunk list"

text \<open>
  \<^verbatim>\<open>file.endsWith(suffix)\<close>, \<^verbatim>\<open>file.replace(pat, "")\<close>, which removes the first occurrence
  of \<open>pat\<close>, \<^verbatim>\<open>path.basename(file, ext)\<close> for a file name without directory part, and
  \<^verbatim>\<open>a || b\<close> for a field that may be absent or empty.
\<close>

definition endsWith :: "string \<Rightarrow> string \<Rightarrow> bool" where
  "endsWith s suffix \<longleftrightarrow>
     length suffix \<le> length s \<and> drop (length s - length suffix) s = suffix"

fun remove_first :: "string \<Rightarrow> string \<Rightarrow> string" where
  "remove_first pat [] = []"
| "remove_first pat (c # cs) =
     (if take (length pat) (c # cs) = pat then drop (length pat) (c # cs)
      else c # remove_first pat cs)"

definition basename :: "string \<Rightarrow> string \<Rightarrow> string" where
  "basename file ext = (if endsWith file ext then take (length file - length ext) file else file)"

definition or_else :: "string option \<Rightarrow> string \<Rightarrow> string" where
  "or_else a b = (case a of None \<Rightarrow> b | Some s \<Rightarrow> if s = [] then b else s)"

text \<open>
  \<^verbatim>\<open>createEmbeddings\<close>: one request per chunk; when a request fails, every chunk gets the
  zero vector of dimension 1536. Without a client the method throws.
\<close>

fun embed_each :: "(js_string \<Rightarrow> real list result) \<Rightarrow> js_string list \<Rightarrow> real list list result" where
  "embed_each create [] = Inr []"
| "embed_each create (chunk # rest) =
     and_then (create chunk) (\<lambda>embedding.
     and_then (embed_each create rest) (\<lambda>embeddings. Inr (embedding # embeddings)))"

definition createEmbeddings :: "index_env \<Rightarrow> bool \<Rightarrow> js_string \<Rightarrow> real list list result" where
  "createEmbeddings env openai text =
     (if \<not> openai then Inl (Error ''OpenAI client not initialized'')
      else
        let chunks = splitIntoChunks text
        in case embed_each (openai_embed env) chunks of
             Inl error \<Rightarrow> Inr (map (\<lambda>chunk. replicate 1536 0) chunks)
           | Inr embeddings \<Rightarrow> Inr embeddings)"

text \<open>
  The body of the loop of \<^verbatim>\<open>indexDocuments\<close> for one file: \<open>None\<close> when the file is
  skipped (\<^verbatim>\<open>continue\<close>, or an exception caught by the \<^verbatim>\<open>try\<close> around the body), otherwise
  the index file written and its chunks.
\<close>

definition parse_document :: "index_env \<Rightarrow> js_string \<Rightarrow> document option" where
  "parse_document env fileContent =
     (case JSON_parse env fileContent of
        Inr document \<Rightarrow> Some document
      | Inl parseError \<Rightarrow>
          if take 1 (trim fileContent) = [0x22]
          then (case JSON_parse env ([0x7B] @ fileContent @ [0x7D]) of
                  Inr document \<Rightarrow> Some document
                | Inl e \<Rightarrow> None)
          else None)"

definition document_chunks ::
  "string \<Rightarrow> document \<Rightarrow> js_string list \<Rightarrow> real list list \<Rightarrow> DocumentChunk list" where
  "document_chunks file document chunks embeddings =
     map (\<lambda>(index, chunk).
            \<lparr>chunk_ident = or_else (doc_url document) (remove_first ''.json'' file)
                             @ ''_chunk_'' @ decimal index,
             chunk_url = or_else (doc_url document) [],
             chunk_title = or_else (doc_title document) ''Untitled'',
             chunk_content = chunk,
             embedding = embeddings ! index\<rparr>)
         (enumerate 0 chunks)"

definition index_file :: "index_env \<Rightarrow> bool \<Rightarrow> string \<Rightarrow> (string \<times> DocumentChunk list) option" where
  "index_file env openai file =
     (case readFileSync env file of
        Inl error \<Rightarrow> None
      | Inr fileContent \<Rightarrow>
          (case parse_document env fileContent of
             None \<Rightarrow> None
           | Some document \<Rightarrow>
               (case doc_content document of
                  None \<Rightarrow> None
                | Some body \<Rightarrow>
                    if body = [] \<or> trim body = [] then None
                    else
                      (case createEmbeddings env openai body of
                         Inl error \<Rightarrow> None
                       | Inr embeddings \<Rightarrow>
                           let chunks = splitIntoChunks body;
                               documentChunks = document_chunks file document chunks embeddings;
                               baseFileName = (if endsWith file ''.jsonX''
                                               then basename file ''.jsonX''
                                               else basename file ''.json'');
                               indexPath = baseFileName @ ''.index.json''
                           in if writeFile_ok env indexPath then Some (indexPath, documentChunks)
                              else None))))"

definition index_step ::
  "index_env \<Rightarrow> bool \<Rightarrow> nat \<times> index_dir \<Rightarrow> string \<Rightarrow> nat \<times> index_dir" where
  "index_step env openai acc file =
     (case acc of (totalProcessed, idx) \<Rightarrow>
        case index_file env openai file of
          None \<Rightarrow> (totalProcessed, idx)
        | Some (indexPath, documentChunks) \<Rightarrow>
            (totalProcessed + length documentChunks, idx(indexPath \<mapsto> documentChunks)))"

text \<open>
  \<^verbatim>\<open>indexDocuments\<close> returns the number of chunks it indexed, together with the index
  directory it leaves.
\<close>

definition indexDocuments :: "index_env \<Rightarrow> bool \<Rightarrow> index_dir \<Rightarrow> (nat \<times> index_dir) result" where
  "indexDocuments env openai idx =
     and_then (readdirSync env) (\<lambda>names.
       let files = filter (\<lambda>file. endsWith file ''.json'' \<or> endsWith file ''.jsonX'') names
       in if files = [] then Inr (0, idx)
          else Inr (foldl (index_step env openai) (0, idx) files))"

text \<open>The number of chunks that the index directory holds for a URL.\<close>

definition chunk_count :: "index_dir \<Rightarrow> string \<Rightarrow> nat" where
  "chunk_count idx u = (\<Sum>k\<in>dom idx. length (filter (\<lambda>c. chunk_url c = u) (the (idx k))))"

section \<open>Indexing a document twice\<close>

text \<open>
  The index files that a run writes, in the order of the source files, determine the
  result of the run.
\<close>

definition written :: "index_env \<Rightarrow> bool \<Rightarrow> string list \<Rightarrow> (string \<times> DocumentChunk list) list" where
  "written env openai files = List.map_filter (index_file env openai) files"

lemma foldl_index_step:
  "foldl (index_step env openai) (n, idx) files
     = (n + (\<Sum>w\<leftarrow>written env openai files. length (snd w)),
        idx ++ map_of (rev (written env openai files)))"
proof (induction files arbitrary: n idx)
  case Nil
  show ?case by (simp add: written_def)
next
  case (Cons f fs)
  show ?case
  proof (cases "index_file env openai f")
    case None
    then have "index_step env openai (n, idx) f = (n, idx)"
      and "written env openai (f # fs) = written env openai fs"
      by (simp_all add: index_step_def written_def)
    then show ?thesis
      by (simp only: foldl_Cons Cons.IH)
  next
    case (Some w)
    obtain k cs where w: "w = (k, cs)" by (cases w)
    have step: "index_step env openai (n, idx) f = (n + length cs, idx(k \<mapsto> cs))"
      and wr: "written env openai (f # fs) = (k, cs) # written env openai fs"
      using Some w by (simp_all add: index_step_def written_def)
    have m: "idx(k \<mapsto> cs) ++ map_of (rev ws) = idx ++ map_of (rev ((k, cs) # ws))" for ws
      by (rule ext) (simp add: map_add_def split: option.splits)
    show ?thesis
      by (simp only: foldl_Cons step wr Cons.IH m) simp
  qed
qed

text \<open>
  The name of an index file and the URLs of its chunks do not depend on the answers of
  the embedding service.
\<close>

definition urls_of :: "string \<times> DocumentChunk list \<Rightarrow> string \<times> string list" where
  "urls_of w = (fst w, map chunk_url (snd w))"

lemma length_document_chunks [simp]:
  "length (document_chunks file document chunks embeddings) = length chunks"
  by (simp add: document_chunks_def)

lemma urls_document_chunks:
  "map chunk_url (document_chunks file document chunks e1)
     = map chunk_url (document_chunks file document chunks e2)"
  by (simp add: document_chunks_def split_def)

lemma createEmbeddings_isl:
  fixes env :: index_env and e2 openai body
  shows "isl (createEmbeddings (env\<lparr>openai_embed := e2\<rparr>) openai body)
     = isl (createEmbeddings env openai body)"
  by (simp add: createEmbeddings_def Let_def split: sum.splits)

lemma index_file_urls:
  fixes env :: index_env and e2 openai fname
  shows "map_option urls_of (index_file (env\<lparr>openai_embed := e2\<rparr>) openai fname)
     = map_option urls_of (index_file env openai fname)"
proof -
  have p: "parse_document (env\<lparr>openai_embed := e2\<rparr>) = parse_document env"
    by (simp add: parse_document_def fun_eq_iff split: sum.splits)
  show ?thesis
  proof (cases "readFileSync env fname")
    case (Inl e)
    then show ?thesis by (simp add: index_file_def)
  next
    case (Inr fileContent)
    show ?thesis
    proof (cases "parse_document env fileContent")
      case None
      with Inr p show ?thesis by (simp add: index_file_def)
    next
      case (Some document)
      show ?thesis
      proof (cases "doc_content document")
        case None
        with Inr p Some show ?thesis by (simp add: index_file_def)
      next
        case body: (Some body)
        show ?thesis
        proof (cases "body = [] \<or> trim body = []")
          case True
          with Inr p Some body show ?thesis by (auto simp: index_file_def)
        next
          case False
          show ?thesis
            using createEmbeddings_isl [of e2 env openai body]
              urls_document_chunks [of fname document "splitIntoChunks body"]
            using Inr p Some body False
            by (cases "createEmbeddings env openai body";
                cases "createEmbeddings (env\<lparr>openai_embed := e2\<rparr>) openai body")
               (auto simp: index_file_def Let_def urls_of_def)
        qed
      qed
    qed
  qed
qed

lemma written_urls:
  "map urls_of (written (env\<lparr>openai_embed := e2\<rparr>) openai files)
     = map urls_of (written env openai files)"
proof (induction files)
  case Nil
  show ?case by (simp add: written_def)
next
  case (Cons f fs)
  then show ?case
    using index_file_urls [of e2 env openai f]
    by (cases "index_file env openai f"; cases "index_file (env\<lparr>openai_embed := e2\<rparr>) openai f")
       (auto simp: written_def)
qed

lemma map_of_urls:
  "map_of (map urls_of ws) k = map_option (map chunk_url) (map_of ws k)"
  by (induction ws) (auto simp: urls_of_def)

text \<open>The URLs of the chunks of every index file determine the chunk counts.\<close>

definition shape :: "index_dir \<Rightarrow> string \<rightharpoonup> string list" where
  "shape idx k = map_option (map chunk_url) (idx k)"

lemma shape_add:
  "shape (idx ++ map_of (rev ws)) = shape idx ++ map_of (rev (map urls_of ws))"
  by (rule ext) (simp add: shape_def map_add_def rev_map map_of_urls split: option.splits)

lemma chunk_count_shape:
  "chunk_count idx u = (\<Sum>k\<in>dom (shape idx). length (filter (\<lambda>x. x = u) (the (shape idx k))))"
proof -
  have d: "dom (shape idx) = dom idx"
    by (auto simp: shape_def dom_def)
  have "length (filter (\<lambda>c. chunk_url c = u) (the (idx k)))
      = length (filter (\<lambda>x. x = u) (the (shape idx k)))" if "k \<in> dom idx" for k
    using that by (auto simp: shape_def filter_map comp_def)
  then show ?thesis
    unfolding chunk_count_def d by (intro sum.cong) simp_all
qed

lemma total_urls:
  "(\<Sum>w\<leftarrow>ws. length (snd w)) = (\<Sum>p\<leftarrow>map urls_of ws. length (snd p))"
  by (induction ws) (simp_all add: urls_of_def)

lemma map_add_twice:
  "(m ++ a) ++ a = m ++ a"
  by (rule ext) (simp add: map_add_def split: option.splits)

text \<open>
  C3 for \<^verbatim>\<open>IndexDatabase.indexDocuments\<close>: when the documents of a source directory are
  indexed a second time, with the same files and the same content, the run reports as
  many chunks as the first run, and the index directory holds for every URL \<open>u\<close> as many
  chunks as after the first run. Each index file is overwritten, not extended. The
  embedding service may answer differently, or fail, in the second run.
\<close>

theorem reindex_same_count:
  assumes "indexDocuments env openai idx = Inr (n1, idx1)"
      and "indexDocuments (env\<lparr>openai_embed := e2\<rparr>) openai idx1 = Inr (n2, idx2)"
  shows "n2 = n1 \<and> chunk_count idx2 u = chunk_count idx1 u"
proof -
  from assms(1) obtain names where names: "readdirSync env = Inr names"
    by (cases "readdirSync env") (auto simp: indexDocuments_def and_then_def)
  let ?files = "filter (\<lambda>file. endsWith file ''.json'' \<or> endsWith file ''.jsonX'') names"
  show ?thesis
  proof (cases "?files = []")
    case True
    with assms names show ?thesis
      by (simp add: indexDocuments_def and_then_def)
  next
    case False
    let ?w1 = "written env openai ?files"
    let ?w2 = "written (env\<lparr>openai_embed := e2\<rparr>) openai ?files"
    have same: "map urls_of ?w2 = map urls_of ?w1"
      by (rule written_urls)
    from assms(1) names False
    have r1: "n1 = (\<Sum>w\<leftarrow>?w1. length (snd w))" "idx1 = idx ++ map_of (rev ?w1)"
      by (simp_all add: indexDocuments_def and_then_def foldl_index_step Let_def)
    from assms(2) names False
    have r2: "n2 = (\<Sum>w\<leftarrow>?w2. length (snd w))" "idx2 = idx1 ++ map_of (rev ?w2)"
      by (simp_all add: indexDocuments_def and_then_def foldl_index_step Let_def)
    have "n2 = n1"
      by (simp only: r1 r2 total_urls same)
    moreover have "shape idx2 = shape idx1"
      by (simp only: r1 r2 shape_add same map_add_twice)
    then have "chunk_count idx2 u = chunk_count idx1 u"
      by (simp add: chunk_count_shape)
    ultimately show ?thesis ..
  qed
qed

text \<open>
  A source directory with one crawled page of two sentences, and a file that is not
  JSON. The embedding service answers in the first run and fails in the second.
\<close>

definition js_of :: "string \<Rightarrow> js_string" where
  "js_of s = map (\<lambda>c. word_of_nat (of_char c)) s"

definition one_page :: index_env where
  "one_page =
     \<lparr>readdirSync = Inr [''_a.json'', ''metadata.txt''],
      readFileSync = (\<lambda>file. Inr (js_of ''{...}'')),
      JSON_parse = (\<lambda>text. Inr \<lparr>doc_url = Some ''https://docs.example/a'',
                                   doc_title = Some ''A'',
                                   doc_content = Some (js_of ''Hello. World.'')\<rparr>),
      openai_embed = (\<lambda>chunk. Inr [1, 0]),
      writeFile_ok = (\<lambda>path. True)\<rparr>"

definition one_page_index :: "real list \<Rightarrow> index_dir" where
  "one_page_index v =
     [''_a.index.json'' \<mapsto>
        [\<lparr>chunk_ident = ''https://docs.example/a_chunk_0'', chunk_url = ''https://docs.example/a'',
          chunk_title = ''A'', chunk_content = js_of ''Hello.  World.'', embedding = v\<rparr>]]"

lemma decimal_0: "decimal 0 = ''0''"
  by code_simp

lemma one_page_split: "splitIntoChunks (js_of ''Hello. World.'') = [js_of ''Hello.  World.'']"
  by code_simp

lemma one_page_body: "js_of ''Hello. World.'' \<noteq> []"
  by (simp add: js_of_def)

lemma one_page_trim: "trim (js_of ''Hello. World.'') \<noteq> []"
  by code_simp

lemma one_page_file:
  "index_file (one_page\<lparr>openai_embed := e\<rparr>) True ''_a.json''
     = Some (''_a.index.json'',
         [\<lparr>chunk_ident = ''https://docs.example/a_chunk_0'', chunk_url = ''https://docs.example/a'',
           chunk_title = ''A'', chunk_content = js_of ''Hello.  World.'',
           embedding = (case e (js_of ''Hello.  World.'') of
                          Inl err \<Rightarrow> replicate 1536 0 | Inr v \<Rightarrow> v)\<rparr>])"
  by (cases "e (js_of ''Hello.  World.'')")
     (simp_all add: index_file_def one_page_def parse_document_def one_page_split one_page_trim
       createEmbeddings_def document_chunks_def or_else_def endsWith_def basename_def
       and_then_def Let_def decimal_0 one_page_body)

lemma one_page_any:
  "indexDocuments (one_page\<lparr>openai_embed := e\<rparr>) True idx
     = Inr (1, idx(''_a.index.json'' \<mapsto>
         [\<lparr>chunk_ident = ''https://docs.example/a_chunk_0'', chunk_url = ''https://docs.example/a'',
           chunk_title = ''A'', chunk_content = js_of ''Hello.  World.'',
           embedding = (case e (js_of ''Hello.  World.'') of
                          Inl err \<Rightarrow> replicate 1536 0 | Inr v \<Rightarrow> v)\<rparr>]))"
proof -
  have "readdirSync (one_page\<lparr>openai_embed := e\<rparr>) = Inr [''_a.json'', ''metadata.txt'']"
    by (simp add: one_page_def)
  then have "indexDocuments (one_page\<lparr>openai_embed := e\<rparr>) True idx
      = Inr (foldl (index_step (one_page\<lparr>openai_embed := e\<rparr>) True) (0, idx) [''_a.json''])"
    by (simp add: indexDocuments_def and_then_def endsWith_def)
  then show ?thesis
    by (simp add: index_step_def one_page_file)
qed

lemma one_page_run:
  "indexDocuments (one_page\<lparr>openai_embed := e\<rparr>) True Map.empty
     = Inr (1, one_page_index (case e (js_of ''Hello.  World.'') of
                                 Inl err \<Rightarrow> replicate 1536 0 | Inr v \<Rightarrow> v))"
  by (simp add: one_page_any one_page_index_def)

lemma one_page_rerun:
  "indexDocuments (one_page\<lparr>openai_embed := e\<rparr>) True (one_page_index v)
     = Inr (1, one_page_index (case e (js_of ''Hello.  World.'') of
                                 Inl err \<Rightarrow> replicate 1536 0 | Inr w \<Rightarrow> w))"
  by (simp add: one_page_any one_page_index_def)

theorem reindex_same_count_witness:
  "indexDocuments one_page True Map.empty = Inr (1, one_page_index [1, 0])
   \<and> indexDocuments (one_page\<lparr>openai_embed := \<lambda>chunk. Inl (Error ''429'')\<rparr>) True
        (one_page_index [1, 0])
       = Inr (1, one_page_index (replicate 1536 0))
   \<and> chunk_count (one_page_index [1, 0]) ''https://docs.example/a'' = 1
   \<and> chunk_count (one_page_index (replicate 1536 0)) ''https://docs.example/a''
       = chunk_count (one_page_index [1, 0]) ''https://docs.example/a''"
proof -
  have "one_page\<lparr>openai_embed := \<lambda>chunk. Inr [1, 0]\<rparr> = one_page"
    by (simp add: one_page_def)
  with one_page_run [of "\<lambda>chunk. Inr [1, 0]"]
  have first: "indexDocuments one_page True Map.empty = Inr (1, one_page_index [1, 0])"
    by simp
  have second: "indexDocuments (one_page\<lparr>openai_embed := \<lambda>chunk. Inl (Error ''429'')\<rparr>) True
        (one_page_index [1, 0]) = Inr (1, one_page_index (replicate 1536 0))"
    using one_page_rerun [of "\<lambda>chunk. Inl (Error ''429'')" "[1, 0]"] by simp
  have one: "chunk_count (one_page_index [1, 0]) ''https://docs.example/a'' = 1"
    by (simp add: chunk_count_def one_page_index_def)
  from reindex_same_count [OF first second] first second one show ?thesis
    by simp
qed

section \<open>Saving a page to Qdrant twice\<close>

text \<open>
  An embedder and a Qdrant client that never fail; the \<open>n\<close>-th identifier drawn is
  \<open>uuid-n\<close>.
\<close>

definition plain_env :: "js_string qdrant_env" where
  "plain_env =
     \<lparr>loadEmbedder = Inr (), embedChunk = (\<lambda>text. Inr [1, 0]),
      searchQdrantByEmbedding = (\<lambda>v n. Inr [])\<rparr>"

definition plain_client :: qdrant_client where
  "plain_client = \<lparr>randomUUID = (\<lambda>n. ''uuid-'' @ decimal n), upsert_ok = (\<lambda>batch. True)\<rparr>"

definition empty_collection :: qdrant_db where
  "empty_collection = \<lparr>points = [], uuid_count = 0\<rparr>"

definition page_a :: string where
  "page_a = ''https://docs.example/a''"

definition save_page_a :: "qdrant_db \<Rightarrow> qdrant_db result" where
  "save_page_a db =
     saveChunksToQdrant plain_env plain_client page_a (js_of ''Hello. World.'')
       ''2025-01-01T00:00:00.000Z'' db"

text \<open>
  C3, as stated, fails for \<^verbatim>\<open>saveChunksToQdrant\<close>: every point gets a fresh identifier,
  so the upsert of the second call replaces nothing. A page of one chunk has one point
  after the first call and two points after the second.
\<close>

theorem saveChunksToQdrant_duplicates:
  "and_then (save_page_a empty_collection) (\<lambda>db1.
   and_then (save_page_a db1) (\<lambda>db2.
     Inr (stored_chunks (points db1) page_a, stored_chunks (points db2) page_a)))
   = Inr (1, 2)"
  by code_simp

end
